theory Spec2Isabelle
  imports Complex_Main "HOL-Library.AList"
begin

section \<open>Data model\<close>

text \<open>
  The train managers of \<^verbatim>\<open>ml/models/train_managers\<close> drive three collaborators whose
  classes live outside the files at hand: the model manager (\<^verbatim>\<open>fit\<close>, \<^verbatim>\<open>predict\<close>,
  \<^verbatim>\<open>save_model\<close>, \<^verbatim>\<open>load_model\<close>, \<^verbatim>\<open>anneal_lr\<close>), the \<^verbatim>\<open>Metric\<close> objects with their
  average meters (\<^verbatim>\<open>update\<close>, \<^verbatim>\<open>update_best\<close>, \<^verbatim>\<open>reset\<close>) and the data loaders. Their
  behaviour is a parameter of the model (the record \<open>collaborators\<close>); every call the
  manager makes on them is appended to the field \<open>calls\<close> of the manager, in program order.

  NumPy arrays of predictions and labels are flat lists. A float64 entry is the real
  number it denotes; float arithmetic is not real arithmetic, so the one arithmetic
  operation of the managers, NumPy's mean of a column, is a parameter as well
  (\<open>np_mean\<close>), and so is scikit-learn's \<^verbatim>\<open>confusion_matrix\<close>, which raises on targets it
  does not accept. Python exceptions are values of type \<open>error\<close>.
\<close>

type_synonym ndarray = "real list"

datatype error =
    AssertionError | KeyError | IndexError | ValueError | TypeError
  | AttributeError | AxisError | RuntimeError | UnboundLocalError | NotFittedError
  | FileNotFoundError | EOFError | OSError

text \<open>A \<^verbatim>\<open>Metric\<close>: its name, whether it decides checkpointing, and its average meter.\<close>

record 'am metric =
  name :: string
  save_model :: bool
  average_meter :: 'am

text \<open>The configuration dictionary, with the keys the managers read.\<close>

record config =
  epochs :: int
  retrain_epochs :: int
  learning_anneal :: real
  tta :: int
  batch_size :: int
  silent :: bool
  return_prob :: bool
  task_type :: string
  model_type :: string
  batch_norm :: bool
  input_size :: "int list option"
  batch_norm_size :: "int list option"
  seq_len :: "int list option"
  image_size :: "int list option"
  n_channels :: "int list option"

text \<open>
  A data loader: the batches \<open>(inputs, labels)\<close> it yields when iterated, and the answers
  of its size queries.
\<close>

record 'x dataloader =
  batches :: "('x \<times> ndarray) list"
  get_input_size :: "int list"
  get_batch_norm_size :: "int list"
  get_seq_len :: "int list"
  get_image_size :: "int list"
  get_n_channels :: "int list"

text \<open>
  Calls on the collaborators, with their arguments and what they returned, and the entry
  of a phase of an epoch (line 101): \<open>Fit phase inputs labels loss predicts\<close>,
  \<open>Predict inputs preds\<close>, \<open>MetricUpdate phase i loss preds labels\<close> for the \<open>i\<close>-th
  metric of the phase, \<open>UpdateBest phase i save_model best_flag\<close>, \<open>MeterReset phase i\<close>.
\<close>

datatype 'x event =
    PhaseBegin nat string
  | Fit string 'x ndarray real ndarray
  | Predict 'x ndarray
  | MetricUpdate string nat real ndarray ndarray
  | UpdateBest string nat bool bool
  | MeterReset string nat
  | SaveModel
  | LoadModel
  | AnnealLr real
  | RecordLog string nat
  | LoggerClose

record ('x, 'mm, 'am) collaborators =
  mm_fit :: "'mm \<Rightarrow> 'x \<Rightarrow> ndarray \<Rightarrow> string \<Rightarrow> (real \<times> ndarray) \<times> 'mm"
  mm_predict :: "'mm \<Rightarrow> 'x \<Rightarrow> ndarray \<times> 'mm"
  mm_save_model :: "'mm \<Rightarrow> 'mm"
  mm_load_model :: "'mm \<Rightarrow> 'mm"
  mm_anneal_lr :: "real \<Rightarrow> 'mm \<Rightarrow> 'mm"
  mm_criterion :: "'mm \<Rightarrow> ndarray \<Rightarrow> ndarray \<Rightarrow> real"
  metric_update :: "real \<Rightarrow> ndarray \<Rightarrow> ndarray \<Rightarrow> 'am metric \<Rightarrow> 'am metric"
  update_best :: "'am \<Rightarrow> bool \<times> 'am"
  reset :: "'am \<Rightarrow> 'am"
  np_mean :: "ndarray \<Rightarrow> real"
  confusion_matrix :: "ndarray \<Rightarrow> ndarray \<Rightarrow> nat \<Rightarrow> error option"

text \<open>
  The train manager object. \<open>metrics\<close> is the dictionary \<^verbatim>\<open>Dict[str, Sequence[Metric]]\<close> of
  \<^verbatim>\<open>ml/utils/utils.py\<close>, \<open>logger\<close> tells whether a TensorBoard logger was created.
  Metric objects are held by value: no \<^verbatim>\<open>Metric\<close> is shared between two entries.
\<close>

record ('x, 'mm, 'am) train_manager =
  class_labels :: "string list"
  cfg :: config
  dataloaders :: "(string \<times> 'x dataloader) list"
  model_manager :: 'mm
  logger :: bool
  metrics :: "(string \<times> 'am metric list) list"
  calls :: "'x event list"

definition record_call ::
  "'x event list \<Rightarrow> ('x, 'mm, 'am) train_manager \<Rightarrow> ('x, 'mm, 'am) train_manager" where
  "record_call es s = s\<lparr>calls := calls s @ es\<rparr>"

section \<open>BaseTrainManager\<close>

text \<open>\<^verbatim>\<open>check_keys_from_dict\<close>: one assertion per key, in order.\<close>

fun check_keys_from_dict :: "string list \<Rightarrow> (string \<times> 'v) list \<Rightarrow> error + unit" where
  "check_keys_from_dict [] dic = Inr ()"
| "check_keys_from_dict (key # keys) dic =
     (if key \<in> fst ` set dic then check_keys_from_dict keys dic else Inl AssertionError)"

section \<open>NNTrainManager\<close>

subsection \<open>\<^verbatim>\<open>_update_by_epoch\<close>\<close>

text \<open>
  The loop over \<^verbatim>\<open>self.metrics[phase]\<close> (lines 39 to 47). The accumulator holds
  \<^verbatim>\<open>best_val_flag\<close>, the metrics already visited (with their meters reset) and the manager.
\<close>

fun update_metrics_loop ::
  "('x, 'mm, 'am) collaborators \<Rightarrow> string \<Rightarrow> 'am metric list \<Rightarrow> nat \<Rightarrow>
   bool \<times> 'am metric list \<times> ('x, 'mm, 'am) train_manager \<Rightarrow>
   bool \<times> 'am metric list \<times> ('x, 'mm, 'am) train_manager" where
  "update_metrics_loop ops phase [] i acc = acc"
| "update_metrics_loop ops phase (m # ms) i (best_val_flag, visited, s) =
     (let (best_flag, am1) = update_best ops (average_meter m);
          s1 = record_call [UpdateBest phase i (save_model m) best_flag] s;
          (flag', s2) =
            (if save_model m \<and> best_flag \<and> phase = ''val''
             then (True, record_call [SaveModel]
                           (s1\<lparr>model_manager := mm_save_model ops (model_manager s1)\<rparr>))
             else (best_val_flag, s1));
          m' = m\<lparr>average_meter := reset ops am1\<rparr>;
          s3 = record_call [MeterReset phase i] s2
      in update_metrics_loop ops phase ms (Suc i) (flag', visited @ [m'], s3))"

definition update_by_epoch ::
  "('x, 'mm, 'am) collaborators \<Rightarrow> string \<Rightarrow> real \<Rightarrow> ('x, 'mm, 'am) train_manager \<Rightarrow>
   error + (bool \<times> ('x, 'mm, 'am) train_manager)" where
  "update_by_epoch ops phase la s =
     (case map_of (metrics s) phase of
        None \<Rightarrow> Inl KeyError
      | Some ms \<Rightarrow>
          (let (best_val_flag, ms', s1) = update_metrics_loop ops phase ms 0 (False, [], s);
               s2 = s1\<lparr>metrics := AList.update phase ms' (metrics s1)\<rparr>;
               s3 = (if phase = ''train''
                     then record_call [AnnealLr la]
                            (s2\<lparr>model_manager := mm_anneal_lr ops la (model_manager s2)\<rparr>)
                     else s2)
           in Inr (best_val_flag, s3)))"

subsection \<open>\<^verbatim>\<open>train\<close>\<close>

text \<open>Lines 91 to 96: the phases of an epoch.\<close>

definition phases_of :: "bool \<Rightarrow> bool \<Rightarrow> string list" where
  "phases_of with_validate only_validate =
     (let phases = (if with_validate then [''train'', ''val''] else [''train''])
      in if only_validate then [''val''] else phases)"

text \<open>
  Lines 104 to 113: one \<^verbatim>\<open>fit\<close> per batch, the predictions and labels stacked, the first
  metric of the phase updated with the batch loss.
\<close>

fun batch_loop ::
  "('x, 'mm, 'am) collaborators \<Rightarrow> string \<Rightarrow> ('x \<times> ndarray) list \<Rightarrow>
   ndarray \<times> ndarray \<times> ('x, 'mm, 'am) train_manager \<Rightarrow>
   error + (ndarray \<times> ndarray \<times> ('x, 'mm, 'am) train_manager)" where
  "batch_loop ops phase [] acc = Inr acc"
| "batch_loop ops phase ((inputs, labels) # rest) (pred_list, label_list, s) =
     (let ((loss, predicts), mm') = mm_fit ops (model_manager s) inputs labels phase;
          s1 = record_call [Fit phase inputs labels loss predicts]
                 (s\<lparr>model_manager := mm'\<rparr>)
      in case map_of (metrics s1) phase of
           None \<Rightarrow> Inl KeyError
         | Some [] \<Rightarrow> Inl IndexError
         | Some (m # ms) \<Rightarrow>
             batch_loop ops phase rest
               (pred_list @ predicts, label_list @ labels,
                record_call [MetricUpdate phase 0 loss predicts labels]
                  (s1\<lparr>metrics :=
                       AList.update phase (metric_update ops loss predicts labels m # ms)
                         (metrics s1)\<rparr>)))"

text \<open>Lines 102 to 126: one phase of one epoch. The state carries \<^verbatim>\<open>best_val_pred\<close>.\<close>

definition run_phase ::
  "('x, 'mm, 'am) collaborators \<Rightarrow> nat \<Rightarrow> string \<Rightarrow>
   ndarray \<times> ('x, 'mm, 'am) train_manager \<Rightarrow>
   error + (ndarray \<times> ('x, 'mm, 'am) train_manager)" where
  "run_phase ops epoch phase st =
     (case st of (best_val_pred, s) \<Rightarrow>
      (case map_of (dataloaders s) phase of
         None \<Rightarrow> Inl KeyError
       | Some dl \<Rightarrow>
      (case batch_loop ops phase (batches dl) ([], [], record_call [PhaseBegin epoch phase] s) of
         Inl e \<Rightarrow> Inl e
       | Inr (pred_list, label_list, s1) \<Rightarrow>
      (case map_of (metrics s1) phase of
         None \<Rightarrow> Inl KeyError
       | Some ms \<Rightarrow>
          (let ms' = take 1 ms @ map (metric_update ops 0 pred_list label_list) (drop 1 ms);
               s2 = record_call
                      (map (\<lambda>i. MetricUpdate phase i 0 pred_list label_list) [1..<length ms])
                      (s1\<lparr>metrics := AList.update phase ms' (metrics s1)\<rparr>);
               s3 = (if logger s2 then record_call [RecordLog phase epoch] s2 else s2)
           in case update_by_epoch ops phase (learning_anneal (cfg s3)) s3 of
                Inl e \<Rightarrow> Inl e
              | Inr (best_val_flag, s4) \<Rightarrow>
                  Inr (if best_val_flag then pred_list else best_val_pred, s4))))))"

text \<open>The loops over the phases (line 101) and over the epochs (line 100).\<close>

fun phase_loop ::
  "('x, 'mm, 'am) collaborators \<Rightarrow> nat \<Rightarrow> string list \<Rightarrow>
   ndarray \<times> ('x, 'mm, 'am) train_manager \<Rightarrow>
   error + (ndarray \<times> ('x, 'mm, 'am) train_manager)" where
  "phase_loop ops epoch [] st = Inr st"
| "phase_loop ops epoch (phase # phases) st =
     (case run_phase ops epoch phase st of
        Inl e \<Rightarrow> Inl e
      | Inr st' \<Rightarrow> phase_loop ops epoch phases st')"

fun epoch_loop ::
  "('x, 'mm, 'am) collaborators \<Rightarrow> string list \<Rightarrow> nat list \<Rightarrow>
   ndarray \<times> ('x, 'mm, 'am) train_manager \<Rightarrow>
   error + (ndarray \<times> ('x, 'mm, 'am) train_manager)" where
  "epoch_loop ops phases [] st = Inr st"
| "epoch_loop ops phases (epoch # es) st =
     (case phase_loop ops epoch phases st of
        Inl e \<Rightarrow> Inl e
      | Inr st' \<Rightarrow> epoch_loop ops phases es st')"

text \<open>
  \<^verbatim>\<open>train\<close> returns \<^verbatim>\<open>(self.metrics, best_val_pred)\<close>; the model returns the manager as well.
  \<^verbatim>\<open>range(self.cfg['epochs'])\<close> is empty for a negative number of epochs.
\<close>

definition train ::
  "('x, 'mm, 'am) collaborators \<Rightarrow> 'mm option \<Rightarrow> bool \<Rightarrow> bool \<Rightarrow>
   ('x, 'mm, 'am) train_manager \<Rightarrow>
   error + (((string \<times> 'am metric list) list \<times> ndarray) \<times> ('x, 'mm, 'am) train_manager)" where
  "train ops model_manager_arg with_validate only_validate s0 =
     (let s = (case model_manager_arg of None \<Rightarrow> s0 | Some mm \<Rightarrow> s0\<lparr>model_manager := mm\<rparr>);
          phases = phases_of with_validate only_validate
      in case check_keys_from_dict phases (dataloaders s) of
           Inl e \<Rightarrow> Inl e
         | Inr _ \<Rightarrow>
        (case epoch_loop ops phases [0..<nat (epochs (cfg s))] ([], s) of
           Inl e \<Rightarrow> Inl e
         | Inr (best_val_pred, s1) \<Rightarrow>
            (let s2 = (if logger s1 then record_call [LoggerClose] s1 else s1);
                 s3 = (if \<not> with_validate
                       then record_call [SaveModel]
                              (s2\<lparr>model_manager := mm_save_model ops (model_manager s2)\<rparr>)
                       else s2)
             in Inr ((metrics s3, best_val_pred), s3))))"

subsection \<open>\<^verbatim>\<open>_predict\<close>\<close>

text \<open>Lines 70 to 75: one \<^verbatim>\<open>predict\<close> per batch, predictions and labels flattened and stacked.\<close>

fun predict_loop ::
  "('x, 'mm, 'am) collaborators \<Rightarrow> ('x \<times> ndarray) list \<Rightarrow>
   ndarray \<times> ndarray \<times> ('x, 'mm, 'am) train_manager \<Rightarrow>
   ndarray \<times> ndarray \<times> ('x, 'mm, 'am) train_manager" where
  "predict_loop ops [] acc = acc"
| "predict_loop ops ((inputs, labels) # rest) (pred_list, label_list, s) =
     (let (preds, mm') = mm_predict ops (model_manager s) inputs;
          s1 = record_call [Predict inputs preds] (s\<lparr>model_manager := mm'\<rparr>)
      in predict_loop ops rest (pred_list @ preds, label_list @ labels, s1))"

text \<open>
  \<^verbatim>\<open>a.reshape(k, -1)\<close> on a flat array: \<open>k\<close> rows in row-major order. NumPy raises
  \<^verbatim>\<open>ValueError\<close> when \<open>k\<close> is not positive or does not divide the size.
\<close>

definition reshape_rows :: "int \<Rightarrow> ndarray \<Rightarrow> error + ndarray list" where
  "reshape_rows k xs =
     (if k \<le> 0 \<or> length xs mod nat k \<noteq> 0 then Inl ValueError
      else Inr (map (\<lambda>j. take (length xs div nat k) (drop (j * (length xs div nat k)) xs))
                  [0..<nat k]))"

text \<open>
  \<^verbatim>\<open>.mean(axis=0)\<close> of rows of width \<open>w\<close>: NumPy's float64 mean of each column, top row
  first.
\<close>

definition mean_axis0 ::
  "('x, 'mm, 'am) collaborators \<Rightarrow> ndarray list \<Rightarrow> nat \<Rightarrow> ndarray" where
  "mean_axis0 ops rows w = map (\<lambda>i. np_mean ops (map (\<lambda>row. row ! i) rows)) [0..<w]"

definition nn_predict ::
  "('x, 'mm, 'am) collaborators \<Rightarrow> string \<Rightarrow> ('x, 'mm, 'am) train_manager \<Rightarrow>
   error + ((ndarray \<times> ndarray) \<times> ('x, 'mm, 'am) train_manager)" where
  "nn_predict ops phase s =
     (case check_keys_from_dict [phase] (dataloaders s) of
        Inl e \<Rightarrow> Inl e
      | Inr _ \<Rightarrow>
     (case map_of (dataloaders s) phase of
        None \<Rightarrow> Inl KeyError
      | Some dl \<Rightarrow>
         (let (pred_list, label_list, s1) = predict_loop ops (batches dl) ([], [], s)
          in if tta (cfg s1) \<noteq> 0
             then (case reshape_rows (tta (cfg s1)) pred_list of
                     Inl e \<Rightarrow> Inl e
                   | Inr rows \<Rightarrow>
                       Inr ((mean_axis0 ops rows (length pred_list div nat (tta (cfg s1))),
                             take (length label_list div nat (tta (cfg s1))) label_list), s1))
             else Inr ((pred_list, label_list), s1))))"

subsection \<open>\<^verbatim>\<open>BaseTrainManager.test\<close>\<close>

text \<open>
  The one-hot encoding by \<^verbatim>\<open>scatter_\<close>: every value, truncated to an integer, must index
  one of the \<open>n\<close> classes.
\<close>

definition trunc :: "real \<Rightarrow> int" where
  "trunc v = (if 0 \<le> v then \<lfloor>v\<rfloor> else \<lceil>v\<rceil>)"

definition one_hot :: "nat \<Rightarrow> ndarray \<Rightarrow> error + ndarray" where
  "one_hot n vs =
     (if list_all (\<lambda>v. 0 \<le> trunc v \<and> trunc v < int n) vs
      then Inr (concat (map (\<lambda>v. map (\<lambda>j. if int j = trunc v then 1 else 0) [0..<n]) vs))
      else Inl RuntimeError)"

text \<open>
  Lines 185 to 202. \<^verbatim>\<open>loss_value\<close> is a local of \<^verbatim>\<open>test\<close>: an iteration that assigns
  nothing to it sees the value of the iteration before, or no value at all.
  \<^verbatim>\<open>pred_list\<close> is flat, so \<^verbatim>\<open>np.argmax(pred_list, axis=1)\<close> at line 181 raises. For a
  classification task \<^verbatim>\<open>confusion_matrix\<close> is computed after the loop (lines 204 to 207)
  and may raise.
\<close>

fun test_loop ::
  "('x, 'mm, 'am) collaborators \<Rightarrow> ndarray \<Rightarrow> ndarray \<Rightarrow> 'am metric list \<Rightarrow> nat \<Rightarrow>
   real option \<times> 'am metric list \<times> ('x, 'mm, 'am) train_manager \<Rightarrow>
   error + (real option \<times> 'am metric list \<times> ('x, 'mm, 'am) train_manager)" where
  "test_loop ops pred_list label_list [] i acc = Inr acc"
| "test_loop ops pred_list label_list (m # ms) i (loss_value, visited, s) =
     (case (if name m = ''loss''
            then (if task_type (cfg s) = ''classify''
                  then (case one_hot (length (class_labels s)) label_list of
                          Inl e \<Rightarrow> Inl e
                        | Inr y_onehot \<Rightarrow>
                       (case one_hot (length (class_labels s)) pred_list of
                          Inl e \<Rightarrow> Inl e
                        | Inr pred_onehot \<Rightarrow>
                            Inr (Some (mm_criterion ops (model_manager s) pred_onehot y_onehot))))
                  else if model_type (cfg s) \<in> set [''rnn'', ''cnn'', ''cnn_rnn'']
                  then Inr (Some (mm_criterion ops (model_manager s) pred_list label_list))
                  else Inr loss_value)
            else Inr (Some 10000000)) of
        Inl e \<Rightarrow> Inl e
      | Inr None \<Rightarrow> Inl UnboundLocalError
      | Inr (Some v) \<Rightarrow>
          (let m1 = metric_update ops v pred_list label_list m;
               (best_flag, am1) = update_best ops (average_meter m1);
               m2 = m1\<lparr>average_meter := am1\<rparr>;
               s1 = record_call [MetricUpdate ''test'' i v pred_list label_list,
                                 UpdateBest ''test'' i (save_model m2) best_flag] s
           in test_loop ops pred_list label_list ms (Suc i) (Some v, visited @ [m2], s1)))"

definition test ::
  "('x, 'mm, 'am) collaborators \<Rightarrow> bool \<Rightarrow> bool \<Rightarrow> string \<Rightarrow> ('x, 'mm, 'am) train_manager \<Rightarrow>
   error + ((ndarray \<times> ndarray \<times> (string \<times> 'am metric list) list option)
            \<times> ('x, 'mm, 'am) train_manager)" where
  "test ops return_metrics load_best phase s =
     (let s1 = (if load_best
                then record_call [LoadModel]
                       (s\<lparr>model_manager := mm_load_model ops (model_manager s)\<rparr>)
                else s)
      in case nn_predict ops phase s1 of
           Inl e \<Rightarrow> Inl e
         | Inr ((pred_list, label_list), s2) \<Rightarrow>
             if return_prob (cfg s2) then Inl AxisError
             else (case map_of (metrics s2) ''test'' of
                     None \<Rightarrow> Inl KeyError
                   | Some ms \<Rightarrow>
                  (case test_loop ops pred_list label_list ms 0 (None, [], s2) of
                     Inl e \<Rightarrow> Inl e
                   | Inr (_, ms', s3) \<Rightarrow>
                      (let s4 = s3\<lparr>metrics := AList.update ''test'' ms' (metrics s3)\<rparr>
                       in case (if task_type (cfg s4) = ''classify''
                                then confusion_matrix ops label_list pred_list
                                       (length (class_labels s4))
                                else None) of
                            Some e \<Rightarrow> Inl e
                          | None \<Rightarrow>
                              Inr ((pred_list, label_list,
                                    if return_metrics then Some (metrics s4) else None), s4)))))"

subsection \<open>\<^verbatim>\<open>retrain\<close>\<close>

text \<open>
  Lines 142 to 146. Iterating the dictionary \<^verbatim>\<open>self.metrics\<close> yields its keys, which are
  strings: the first \<^verbatim>\<open>metric.add_average_meter\<close> raises \<^verbatim>\<open>AttributeError\<close>. The result
  tells whether \<^verbatim>\<open>start\<close>, assigned inside this loop, is bound afterwards.
\<close>

fun add_average_meters :: "(string \<times> 'v) list \<Rightarrow> bool \<Rightarrow> error + bool" where
  "add_average_meters [] start_bound = Inr start_bound"
| "add_average_meters ((key, v) # rest) start_bound = Inl AttributeError"

text \<open>
  A call of the bound method \<^verbatim>\<open>_update_by_epoch\<close> with positional arguments. Its
  parameters are \<^verbatim>\<open>phase\<close> and \<^verbatim>\<open>learning_anneal\<close>; Python raises \<^verbatim>\<open>TypeError\<close> for any other
  number of arguments, before the body runs.
\<close>

datatype arg = Str string | Num real | Idx nat

definition call_update_by_epoch ::
  "('x, 'mm, 'am) collaborators \<Rightarrow> arg list \<Rightarrow> ('x, 'mm, 'am) train_manager \<Rightarrow>
   error + (bool \<times> ('x, 'mm, 'am) train_manager)" where
  "call_update_by_epoch ops args s =
     (case args of
        [Str phase, Num la] \<Rightarrow> update_by_epoch ops phase la s
      | _ \<Rightarrow> Inl TypeError)"

text \<open>Lines 149 to 158: the batches of one epoch; \<^verbatim>\<open>fit\<close> is called with phase \<^verbatim>\<open>'train'\<close>.\<close>

fun retrain_batch_loop ::
  "('x, 'mm, 'am) collaborators \<Rightarrow> bool \<Rightarrow> ('x \<times> ndarray) list \<Rightarrow>
   ('x, 'mm, 'am) train_manager \<Rightarrow> error + ('x, 'mm, 'am) train_manager" where
  "retrain_batch_loop ops start_bound [] s = Inr s"
| "retrain_batch_loop ops start_bound ((inputs, labels) # rest) s =
     (let ((loss, predicts), mm') = mm_fit ops (model_manager s) inputs labels ''train'';
          s1 = record_call [Fit ''train'' inputs labels loss predicts]
                 (s\<lparr>model_manager := mm'\<rparr>)
      in case map_of (metrics s1) ''retrain'' of
           None \<Rightarrow> Inl KeyError
         | Some ms \<Rightarrow>
             (let s2 = record_call
                         (map (\<lambda>i. MetricUpdate ''retrain'' i loss predicts labels)
                            [0..<length ms])
                         (s1\<lparr>metrics :=
                              AList.update ''retrain''
                                (map (metric_update ops loss predicts labels) ms) (metrics s1)\<rparr>)
              in if \<not> silent (cfg s2) \<and> \<not> start_bound then Inl UnboundLocalError
                 else retrain_batch_loop ops start_bound rest s2))"

text \<open>
  Lines 149 to 163: one epoch. Line 163 passes \<^verbatim>\<open>phase\<close>, \<^verbatim>\<open>epoch\<close> and the annealing
  factor to \<^verbatim>\<open>_update_by_epoch\<close>.
\<close>

definition retrain_epoch ::
  "('x, 'mm, 'am) collaborators \<Rightarrow> bool \<Rightarrow> nat \<Rightarrow> ('x, 'mm, 'am) train_manager \<Rightarrow>
   error + ('x, 'mm, 'am) train_manager" where
  "retrain_epoch ops start_bound epoch s =
     (case map_of (dataloaders s) ''retrain'' of
        None \<Rightarrow> Inl KeyError
      | Some dl \<Rightarrow>
     (case retrain_batch_loop ops start_bound (batches dl) s of
        Inl e \<Rightarrow> Inl e
      | Inr s1 \<Rightarrow>
     (case (if logger s1
            then (case map_of (metrics s1) ''retrain'' of
                    None \<Rightarrow> Inl KeyError
                  | Some _ \<Rightarrow> Inr (record_call [RecordLog ''retrain'' epoch] s1))
            else Inr s1) of
        Inl e \<Rightarrow> Inl e
      | Inr s2 \<Rightarrow>
     (case call_update_by_epoch ops
             [Str ''retrain'', Idx epoch, Num (learning_anneal (cfg s2))] s2 of
        Inl e \<Rightarrow> Inl e
      | Inr (_, s3) \<Rightarrow> Inr s3))))"

fun retrain_epoch_loop ::
  "('x, 'mm, 'am) collaborators \<Rightarrow> bool \<Rightarrow> nat list \<Rightarrow> ('x, 'mm, 'am) train_manager \<Rightarrow>
   error + ('x, 'mm, 'am) train_manager" where
  "retrain_epoch_loop ops start_bound [] s = Inr s"
| "retrain_epoch_loop ops start_bound (epoch # es) s =
     (case retrain_epoch ops start_bound epoch s of
        Inl e \<Rightarrow> Inl e
      | Inr s' \<Rightarrow> retrain_epoch_loop ops start_bound es s')"

definition retrain ::
  "('x, 'mm, 'am) collaborators \<Rightarrow> ('x, 'mm, 'am) train_manager \<Rightarrow>
   error + ((string \<times> 'am metric list) list \<times> ('x, 'mm, 'am) train_manager)" where
  "retrain ops s =
     (let s1 = record_call [LoadModel]
                 (s\<lparr>model_manager := mm_load_model ops (model_manager s)\<rparr>)
      in case add_average_meters (metrics s1) False of
           Inl e \<Rightarrow> Inl e
         | Inr start_bound \<Rightarrow>
        (case retrain_epoch_loop ops start_bound [0..<nat (retrain_epochs (cfg s1))] s1 of
           Inl e \<Rightarrow> Inl e
         | Inr s2 \<Rightarrow>
        (case test ops True False ''retrain_test'' s2 of
           Inl e \<Rightarrow> Inl e
         | Inr (_, s3) \<Rightarrow> Inr (metrics s3, s3))))"

subsection \<open>\<^verbatim>\<open>_init_model_manager\<close>\<close>

text \<open>
  The tables \<^verbatim>\<open>supported_nn_models\<close>, \<^verbatim>\<open>supported_pretrained_models\<close> (its keys) and
  \<^verbatim>\<open>supported_ml_models\<close> are imported from the model-manager modules; they are parameters
  here. The result is the manager that was constructed, if any, and the configuration as
  the method leaves it.
\<close>

datatype manager = NNModelManager "string list" config | MLModelManager "string list" config

definition init_model_manager ::
  "string list \<Rightarrow> string list \<Rightarrow> string list \<Rightarrow>
   string list \<Rightarrow> config \<Rightarrow> (string \<times> 'x dataloader) list \<Rightarrow>
   error + (manager option \<times> config)" where
  "init_model_manager supported_nn_models supported_pretrained_models supported_ml_models
     labels c dls =
     (case dls of
        [] \<Rightarrow> Inl IndexError
      | (_, dl) # _ \<Rightarrow>
         (let c1 = c\<lparr>input_size := Some (get_input_size dl)\<rparr>
          in if model_type c1 \<in> set (supported_nn_models @ supported_pretrained_models)
             then (let c2 =
                     (if model_type c1 \<in> set [''rnn'']
                      then (let c' = (if batch_norm c1
                                      then c1\<lparr>batch_norm_size := Some (get_batch_norm_size dl)\<rparr>
                                      else c1)
                            in c'\<lparr>seq_len := Some (get_seq_len dl)\<rparr>)
                      else if model_type c1 \<in>
                                set ([''logmel_cnn'', ''cnn'', ''cnn_rnn'']
                                       @ supported_pretrained_models)
                      then c1\<lparr>image_size := Some (get_image_size dl),
                              n_channels := Some (get_n_channels dl)\<rparr>
                      else c1)
                   in Inr (Some (NNModelManager labels c2), c2))
             else if model_type c1 \<in> set supported_ml_models
             then Inr (Some (MLModelManager labels c1), c1)
             else Inr (None, c1)))"

section \<open>BaseMLPredictor\<close>

text \<open>
  The estimator behind \<^verbatim>\<open>self.model\<close> and \<^verbatim>\<open>log_loss\<close> belong to scikit-learn and are
  parameters. Each of their calls may raise; an unfitted estimator raises
  \<^verbatim>\<open>NotFittedError\<close> from \<^verbatim>\<open>predict\<close>, the very exception of line 83. \<^verbatim>\<open>fit\<close> works in
  place, so it leaves an estimator behind also when it raises. A bare
  \<^verbatim>\<open>BaseMLPredictor\<close> has no attribute \<^verbatim>\<open>model\<close>; the subclasses construct one.
\<close>

record ('m, 'x, 'y, 'p) estimator =
  est_fit :: "'m \<Rightarrow> 'x \<Rightarrow> 'y \<Rightarrow> error option \<times> 'm"
  est_predict :: "'m \<Rightarrow> 'x \<Rightarrow> error + 'p"
  est_predict_proba :: "'m \<Rightarrow> 'x \<Rightarrow> error + 'p"
  log_loss :: "'y \<Rightarrow> 'p \<Rightarrow> string list \<Rightarrow> error + real"

record 'm predictor =
  predictor_labels :: "string list"
  fitted :: bool
  model :: "'m option"

text \<open>
  The files on disk. \<open>can_open fname\<close> tells whether \<^verbatim>\<open>open(fname, 'wb')\<close> succeeds (the
  directory exists and may be written to); otherwise it raises an \<^verbatim>\<open>OSError\<close>. \<open>pickled\<close>
  gives the files by name: \<open>Some m\<close> holds the pickled model \<open>m\<close>, \<open>None\<close> is a file that
  \<^verbatim>\<open>open\<close> created and nothing was written to.
\<close>

record 'm files =
  can_open :: "string \<Rightarrow> bool"
  pickled :: "string \<rightharpoonup> 'm option"

definition init_predictor :: "string list \<Rightarrow> 'm option \<Rightarrow> 'm predictor" where
  "init_predictor labels m = \<lparr>predictor_labels = labels, fitted = False, model = m\<rparr>"

text \<open>
  A method returns the exception it raised, if any, and the state it leaves behind: a
  caller may catch the exception and go on with the same object.
\<close>

definition predictor_save_model ::
  "string \<Rightarrow> 'm predictor \<times> 'm files \<Rightarrow> error option \<times> ('m predictor \<times> 'm files)" where
  "predictor_save_model fname w =
     (case w of (p, fs) \<Rightarrow>
        if \<not> can_open fs fname then (Some OSError, (p, fs))
        else (case model p of
                None \<Rightarrow> (Some AttributeError, (p, fs\<lparr>pickled := (pickled fs)(fname \<mapsto> None)\<rparr>))
              | Some m \<Rightarrow> (None, (p, fs\<lparr>pickled := (pickled fs)(fname \<mapsto> Some m)\<rparr>))))"

definition predictor_load_model ::
  "string \<Rightarrow> 'm predictor \<times> 'm files \<Rightarrow> error option \<times> ('m predictor \<times> 'm files)" where
  "predictor_load_model fname w =
     (case w of (p, fs) \<Rightarrow>
        (case pickled fs fname of
           None \<Rightarrow> (Some FileNotFoundError, (p, fs))
         | Some None \<Rightarrow> (Some EOFError, (p, fs))
         | Some (Some m) \<Rightarrow> (None, (p\<lparr>model := Some m, fitted := True\<rparr>, fs))))"

definition predictor_fit ::
  "('m, 'x, 'y, 'p) estimator \<Rightarrow> 'x \<Rightarrow> 'y \<Rightarrow> 'm predictor \<Rightarrow>
   (error + real) \<times> 'm predictor" where
  "predictor_fit est x y p =
     (let p1 = p\<lparr>fitted := True\<rparr>
      in case model p1 of
           None \<Rightarrow> (Inl AttributeError, p1)
         | Some m \<Rightarrow>
             (case est_fit est m x y of
                (Some e, m') \<Rightarrow> (Inl e, p1\<lparr>model := Some m'\<rparr>)
              | (None, m') \<Rightarrow>
                  (case est_predict_proba est m' x of
                     Inl e \<Rightarrow> (Inl e, p1\<lparr>model := Some m'\<rparr>)
                   | Inr proba \<Rightarrow>
                       (log_loss est y proba (predictor_labels p1), p1\<lparr>model := Some m'\<rparr>))))"

definition predictor_predict ::
  "('m, 'x, 'y, 'p) estimator \<Rightarrow> 'x \<Rightarrow> 'm predictor \<Rightarrow> error + 'p" where
  "predictor_predict est x p =
     (if \<not> fitted p then Inl NotFittedError
      else (case model p of
              None \<Rightarrow> Inl AttributeError
            | Some m \<Rightarrow> est_predict est m x))"

definition predictor_predict_proba ::
  "('m, 'x, 'y, 'p) estimator \<Rightarrow> 'x \<Rightarrow> 'm predictor \<Rightarrow> error + 'p" where
  "predictor_predict_proba est x p =
     (case model p of
        None \<Rightarrow> Inl AttributeError
      | Some m \<Rightarrow> est_predict_proba est m x)"

text \<open>
  A client: a sequence of method calls on one predictor, each exception caught. The result
  lists what each call raised and gives the final state.
\<close>

datatype ('x, 'y) method_call =
    CallSaveModel string | CallLoadModel string | CallFit 'x 'y
  | CallPredict 'x | CallPredictProba 'x

definition raised :: "error + 'a \<Rightarrow> error option" where
  "raised r = (case r of Inl e \<Rightarrow> Some e | Inr v \<Rightarrow> None)"

fun call_method ::
  "('m, 'x, 'y, 'p) estimator \<Rightarrow> ('x, 'y) method_call \<Rightarrow> 'm predictor \<times> 'm files \<Rightarrow>
   error option \<times> ('m predictor \<times> 'm files)" where
  "call_method est (CallSaveModel fname) w = predictor_save_model fname w"
| "call_method est (CallLoadModel fname) w = predictor_load_model fname w"
| "call_method est (CallFit x y) (p, fs) =
     (raised (fst (predictor_fit est x y p)), (snd (predictor_fit est x y p), fs))"
| "call_method est (CallPredict x) (p, fs) = (raised (predictor_predict est x p), (p, fs))"
| "call_method est (CallPredictProba x) (p, fs) =
     (raised (predictor_predict_proba est x p), (p, fs))"

fun call_methods ::
  "('m, 'x, 'y, 'p) estimator \<Rightarrow> ('x, 'y) method_call list \<Rightarrow> 'm predictor \<times> 'm files \<Rightarrow>
   error option list \<times> ('m predictor \<times> 'm files)" where
  "call_methods est [] w = ([], w)"
| "call_methods est (c # cs) w =
     (let (out, w1) = call_method est c w;
          (outs, w2) = call_methods est cs w1
      in (out # outs, w2))"

text \<open>
  The calls that set the flag: every call of \<^verbatim>\<open>fit\<close> (line 55 runs first), and a call of
  \<^verbatim>\<open>load_model\<close> that returned.
\<close>

fun sets_fitted :: "('x, 'y) method_call \<times> error option \<Rightarrow> bool" where
  "sets_fitted (CallFit x y, out) = True"
| "sets_fitted (CallLoadModel fname, out) = (out = None)"
| "sets_fitted (c, out) = False"

section \<open>\<^verbatim>\<open>dump_dict\<close>\<close>

text \<open>
  Modelled from the documentation of Python's \<^verbatim>\<open>json\<close> module, which is not part of the
  repository: \<^verbatim>\<open>json.dump\<close> and \<^verbatim>\<open>json.load\<close> as the conversions between Python values
  and JSON values that the documentation tabulates. The text of the file is identified
  with the JSON value it denotes (\<^verbatim>\<open>indent=4\<close> changes the text only).

  Python values: a dict is the list of its items in insertion order; keys are strings,
  integers, booleans or \<^verbatim>\<open>None\<close> (float keys, which the encoder accepts as well, are left
  out); floats are finite and integers of a size the interpreter converts to decimal;
  \<open>PObject\<close> stands for any value that \<^verbatim>\<open>json.dump\<close> rejects with \<^verbatim>\<open>TypeError\<close>.
\<close>

datatype key = KStr string | KInt int | KBool bool | KNone

datatype py =
    PNone | PBool bool | PInt int | PFloat real | PStr string
  | PList "py list" | PTuple "py list" | PDict "(key \<times> py) list" | PObject

datatype json =
    JNull | JBool bool | JInt int | JFloat real | JString string
  | JArray "json list" | JObject "(string \<times> json) list"

text \<open>
  The encoder writes every key as a string: an integer in decimal, \<^verbatim>\<open>True\<close> as
  \<^verbatim>\<open>"true"\<close>, \<^verbatim>\<open>None\<close> as \<^verbatim>\<open>"null"\<close>. Lists and tuples both become arrays.
\<close>

definition digit :: "nat \<Rightarrow> char" where
  "digit d = char_of (48 + d)"

fun show_nat :: "nat \<Rightarrow> string" where
  "show_nat n = (if n < 10 then [digit n] else show_nat (n div 10) @ [digit (n mod 10)])"

definition show_int :: "int \<Rightarrow> string" where
  "show_int i = (if i < 0 then CHR ''-'' # show_nat (nat (- i)) else show_nat (nat i))"

fun key_to_str :: "key \<Rightarrow> string" where
  "key_to_str (KStr s) = s"
| "key_to_str (KInt i) = show_int i"
| "key_to_str (KBool b) = (if b then ''true'' else ''false'')"
| "key_to_str KNone = ''null''"

fun serializable :: "py \<Rightarrow> bool" where
  "serializable (PList xs) = list_all serializable xs"
| "serializable (PTuple xs) = list_all serializable xs"
| "serializable (PDict kvs) = list_all (\<lambda>kv. serializable (snd kv)) kvs"
| "serializable PObject = False"
| "serializable v = True"

fun to_json :: "py \<Rightarrow> json" where
  "to_json PNone = JNull"
| "to_json (PBool b) = JBool b"
| "to_json (PInt i) = JInt i"
| "to_json (PFloat r) = JFloat r"
| "to_json (PStr s) = JString s"
| "to_json (PList xs) = JArray (map to_json xs)"
| "to_json (PTuple xs) = JArray (map to_json xs)"
| "to_json (PDict kvs) = JObject (map (\<lambda>kv. (key_to_str (fst kv), to_json (snd kv))) kvs)"
| "to_json PObject = JNull"

text \<open>
  The decoder builds a dict by assigning the members in order (a later duplicate
  overwrites the value), and a list from an array.
\<close>

definition dict_set :: "(key \<times> py) list \<Rightarrow> key \<Rightarrow> py \<Rightarrow> (key \<times> py) list" where
  "dict_set d k v = AList.update k v d"

fun of_json :: "json \<Rightarrow> py" where
  "of_json JNull = PNone"
| "of_json (JBool b) = PBool b"
| "of_json (JInt i) = PInt i"
| "of_json (JFloat r) = PFloat r"
| "of_json (JString s) = PStr s"
| "of_json (JArray xs) = PList (map of_json xs)"
| "of_json (JObject ms) =
     PDict (foldl (\<lambda>d kv. dict_set d (KStr (fst kv)) (snd kv)) []
              (map (\<lambda>m. (fst m, of_json (snd m))) ms))"

text \<open>
  The disk of text files. \<open>may_open path\<close> tells whether \<^verbatim>\<open>open(path, 'w')\<close> succeeds (the
  directory exists and may be written to); otherwise it raises an \<^verbatim>\<open>OSError\<close>. \<open>texts\<close>
  gives the files by name: \<open>Some j\<close> is the text of the JSON value \<open>j\<close>, \<open>None\<close> a text that
  is no JSON document.

  \<^verbatim>\<open>dump_dict(path, dict_)\<close> opens the file, which creates or empties it, and then writes
  the encoding piece by piece: when the encoder raises \<^verbatim>\<open>TypeError\<close> the file is left with
  an incomplete text. A method returns the exception it raised, if any, and the disk it
  leaves behind. \<^verbatim>\<open>json.load\<close> of a file raises \<^verbatim>\<open>JSONDecodeError\<close>, a \<^verbatim>\<open>ValueError\<close>, on a
  text that is no JSON document.
\<close>

record disk =
  may_open :: "string \<Rightarrow> bool"
  texts :: "string \<rightharpoonup> json option"

definition dump_dict :: "string \<Rightarrow> py \<Rightarrow> disk \<Rightarrow> error option \<times> disk" where
  "dump_dict path d fs =
     (if \<not> may_open fs path then (Some OSError, fs)
      else if serializable d then (None, fs\<lparr>texts := (texts fs)(path \<mapsto> Some (to_json d))\<rparr>)
      else (Some TypeError, fs\<lparr>texts := (texts fs)(path \<mapsto> None)\<rparr>))"

definition json_load :: "string \<Rightarrow> disk \<Rightarrow> error + py" where
  "json_load path fs =
     (case texts fs path of
        None \<Rightarrow> Inl FileNotFoundError
      | Some None \<Rightarrow> Inl ValueError
      | Some (Some j) \<Rightarrow> Inr (of_json j))"

definition dump_then_load :: "string \<Rightarrow> py \<Rightarrow> disk \<Rightarrow> error + py" where
  "dump_then_load path d fs =
     (case dump_dict path d fs of
        (Some e, fs') \<Rightarrow> Inl e
      | (None, fs') \<Rightarrow> json_load path fs')"

text \<open>
  The values that come back unchanged: no tuple, no unserializable object, and every
  dict with string keys only.
\<close>

fun is_str_key :: "key \<Rightarrow> bool" where
  "is_str_key (KStr s) = True"
| "is_str_key k = False"

fun plain :: "py \<Rightarrow> bool" where
  "plain (PList xs) = list_all plain xs"
| "plain (PTuple xs) = False"
| "plain (PDict kvs) =
     (list_all (\<lambda>kv. is_str_key (fst kv) \<and> plain (snd kv)) kvs \<and> distinct (map fst kvs))"
| "plain PObject = False"
| "plain v = True"

section \<open>Reading the call log\<close>

text \<open>The iterations \<open>(epoch, phase)\<close> that were entered, in order.\<close>

fun phase_iterations :: "'x event list \<Rightarrow> (nat \<times> string) list" where
  "phase_iterations [] = []"
| "phase_iterations (PhaseBegin e p # es) = (e, p) # phase_iterations es"
| "phase_iterations (x # es) = phase_iterations es"



fun is_anneal :: "'x event \<Rightarrow> bool" where
  "is_anneal (AnnealLr x) = True"
| "is_anneal _ = False"

fun is_reset :: "'x event \<Rightarrow> bool" where
  "is_reset (MeterReset p i) = True"
| "is_reset _ = False"

fun meter_resets :: "'x event list \<Rightarrow> (string \<times> nat) list" where
  "meter_resets [] = []"
| "meter_resets (MeterReset p i # es) = (p, i) # meter_resets es"
| "meter_resets (x # es) = meter_resets es"

fun meter_updates :: "'x event list \<Rightarrow> (string \<times> nat) list" where
  "meter_updates [] = []"
| "meter_updates (MetricUpdate p i l pr y # es) = (p, i) # meter_updates es"
| "meter_updates (x # es) = meter_updates es"

text \<open>
  The calls of one iteration \<open>it = (epoch, phase)\<close> with respect to annealing: they begin
  with the entry of the phase and enter no other; a \<^verbatim>\<open>'train'\<close> iteration calls
  \<^verbatim>\<open>anneal_lr\<close> once, with \<open>la\<close>, as its last call; any other iteration never calls it.
\<close>

definition anneal_block :: "real \<Rightarrow> nat \<times> string \<Rightarrow> 'x event list \<Rightarrow> bool" where
  "anneal_block la it blk \<longleftrightarrow>
     blk \<noteq> [] \<and> hd blk = PhaseBegin (fst it) (snd it) \<and> phase_iterations (tl blk) = []
     \<and> filter is_anneal blk = (if snd it = ''train'' then [AnnealLr la] else [])
     \<and> (snd it = ''train'' \<longrightarrow> last blk = AnnealLr la)"

text \<open>
  The calls of one iteration with respect to the meters: every metric registered for the
  phase in \<open>mets\<close> has its meter reset once, in order, and no metric is updated after the
  first reset.
\<close>

definition reset_block ::
  "(string \<times> 'am metric list) list \<Rightarrow> nat \<times> string \<Rightarrow> 'x event list \<Rightarrow> bool" where
  "reset_block mets it blk \<longleftrightarrow>
     blk \<noteq> [] \<and> hd blk = PhaseBegin (fst it) (snd it) \<and> phase_iterations (tl blk) = []
     \<and> map_option (\<lambda>ms. map (Pair (snd it)) [0..<length ms]) (map_of mets (snd it))
         = Some (meter_resets blk)
     \<and> meter_updates (dropWhile (\<lambda>x. \<not> is_reset x) blk) = []"

text \<open>What \<^verbatim>\<open>_update_by_epoch\<close> does to a list of metrics, and what \<^verbatim>\<open>update_best\<close> returns.\<close>

definition best_flags ::
  "('x, 'mm, 'am) collaborators \<Rightarrow> 'am metric list \<Rightarrow> (bool \<times> bool) list" where
  "best_flags ops ms = map (\<lambda>m. (save_model m, fst (update_best ops (average_meter m)))) ms"

definition reset_all ::
  "('x, 'mm, 'am) collaborators \<Rightarrow> 'am metric list \<Rightarrow> 'am metric list" where
  "reset_all ops ms =
     map (\<lambda>m. m\<lparr>average_meter := reset ops (snd (update_best ops (average_meter m)))\<rparr>) ms"

subsection \<open>The shape of the log of \<^verbatim>\<open>train\<close>\<close>

text \<open>
  One iteration contributes a block of calls, determined by what \<^verbatim>\<open>fit\<close> returned on each
  batch and by the pair (\<^verbatim>\<open>save_model\<close> flag, result of \<^verbatim>\<open>update_best\<close>) of each metric.
\<close>

fun best_events :: "string \<Rightarrow> nat \<Rightarrow> (bool \<times> bool) list \<Rightarrow> 'x event list" where
  "best_events p i [] = []"
| "best_events p i ((sm, bf) # r) =
     UpdateBest p i sm bf # (if sm \<and> bf \<and> p = ''val'' then [SaveModel] else [])
       @ MeterReset p i # best_events p (Suc i) r"

record 'x fit_call =
  fit_inputs :: 'x
  fit_labels :: ndarray
  fit_loss :: real
  fit_predicts :: ndarray

definition fit_events :: "string \<Rightarrow> 'x fit_call list \<Rightarrow> 'x event list" where
  "fit_events p fits =
     concat (map (\<lambda>f. [Fit p (fit_inputs f) (fit_labels f) (fit_loss f) (fit_predicts f),
                       MetricUpdate p 0 (fit_loss f) (fit_predicts f) (fit_labels f)]) fits)"

record 'x block =
  b_epoch :: nat
  b_phase :: string
  b_fits :: "'x fit_call list"
  b_bests :: "(bool \<times> bool) list"

definition b_iter :: "'x block \<Rightarrow> nat \<times> string" where
  "b_iter b = (b_epoch b, b_phase b)"

definition block_pred :: "'x block \<Rightarrow> ndarray" where
  "block_pred b = concat (map fit_predicts (b_fits b))"

definition block_labels :: "'x block \<Rightarrow> ndarray" where
  "block_labels b = concat (map fit_labels (b_fits b))"

definition block_body :: "bool \<Rightarrow> 'x block \<Rightarrow> 'x event list" where
  "block_body lg b =
     fit_events (b_phase b) (b_fits b)
       @ map (\<lambda>i. MetricUpdate (b_phase b) i 0 (block_pred b) (block_labels b))
           [1..<length (b_bests b)]
       @ (if lg then [RecordLog (b_phase b) (b_epoch b)] else [])
       @ best_events (b_phase b) 0 (b_bests b)"

definition block_events :: "real \<Rightarrow> bool \<Rightarrow> 'x block \<Rightarrow> 'x event list" where
  "block_events la lg b =
     PhaseBegin (b_epoch b) (b_phase b) # block_body lg b
       @ (if b_phase b = ''train'' then [AnnealLr la] else [])"

definition block_saved :: "'x block \<Rightarrow> bool" where
  "block_saved b \<longleftrightarrow> b_phase b = ''val'' \<and> (\<exists>x \<in> set (b_bests b). fst x \<and> snd x)"

definition best_val_pred_after :: "ndarray \<Rightarrow> 'x block list \<Rightarrow> ndarray" where
  "best_val_pred_after bvp bs =
     foldl (\<lambda>acc b. if block_saved b then block_pred b else acc) bvp bs"

definition closing_events :: "bool \<Rightarrow> bool \<Rightarrow> 'x event list" where
  "closing_events lg with_validate =
     (if lg then [LoggerClose] else []) @ (if \<not> with_validate then [SaveModel] else [])"

definition entered ::
  "'mm option \<Rightarrow> ('x, 'mm, 'am) train_manager \<Rightarrow> ('x, 'mm, 'am) train_manager" where
  "entered model_manager_arg s0 =
     (case model_manager_arg of None \<Rightarrow> s0 | Some mm \<Rightarrow> s0\<lparr>model_manager := mm\<rparr>)"

text \<open>What the loops leave unchanged, and what they establish.\<close>

definition same_frame ::
  "('x, 'mm, 'am) train_manager \<Rightarrow> ('x, 'mm, 'am) train_manager \<Rightarrow> bool" where
  "same_frame s s' \<longleftrightarrow>
     cfg s' = cfg s \<and> logger s' = logger s \<and> dataloaders s' = dataloaders s
     \<and> (\<forall>q. map_option length (map_of (metrics s') q) = map_option length (map_of (metrics s) q))"

definition meters_reset ::
  "('x, 'mm, 'am) collaborators \<Rightarrow> ('x, 'mm, 'am) train_manager \<Rightarrow> string \<Rightarrow> bool" where
  "meters_reset ops s q \<longleftrightarrow> (\<exists>ms. map_of (metrics s) q = Some (reset_all ops ms))"

definition registered :: "('x, 'mm, 'am) train_manager \<Rightarrow> 'x block \<Rightarrow> bool" where
  "registered s b \<longleftrightarrow>
     map_option length (map_of (metrics s) (b_phase b)) = Some (length (b_bests b))"

definition run_shape ::
  "('x, 'mm, 'am) collaborators \<Rightarrow> ndarray \<times> ('x, 'mm, 'am) train_manager \<Rightarrow>
   ndarray \<times> ('x, 'mm, 'am) train_manager \<Rightarrow> 'x block list \<Rightarrow> bool" where
  "run_shape ops st st' bs \<longleftrightarrow>
     calls (snd st') = calls (snd st)
        @ concat (map (block_events (learning_anneal (cfg (snd st))) (logger (snd st))) bs)
     \<and> fst st' = best_val_pred_after (fst st) bs
     \<and> same_frame (snd st) (snd st')
     \<and> (\<forall>b \<in> set bs. registered (snd st) b)
     \<and> (\<forall>b \<in> set bs. meters_reset ops (snd st') (b_phase b))
     \<and> (\<forall>q. meters_reset ops (snd st) q \<longrightarrow> meters_reset ops (snd st') q)"

subsection \<open>Replaying the log\<close>

text \<open>
  The log is meant to be the exact record of what was done to the model manager and to
  the metrics. \<open>replay\<close> makes that checkable: it applies the entries, in order, to a
  model manager and a metrics dictionary. An entry that records a result (\<open>Fit\<close>,
  \<open>Predict\<close>, \<open>UpdateBest\<close>) is replayed only if the collaborator returns that very result
  in the state reached; an entry about a metric only if the metric exists. \<open>SaveModel\<close>
  applies \<^verbatim>\<open>save_model\<close>, \<open>AnnealLr la\<close> applies \<^verbatim>\<open>anneal_lr(la)\<close>, \<open>MeterReset p i\<close> applies
  \<^verbatim>\<open>reset\<close> to the meter of metric \<open>i\<close> of phase \<open>p\<close>, and so on. When the replay of the
  log of a run on its initial state gives its final state, the run did to its
  collaborators what the log says, no more and no less.
\<close>

definition metric_at :: "(string \<times> 'am metric list) list \<Rightarrow> string \<Rightarrow> nat \<Rightarrow> 'am metric option" where
  "metric_at mets p i =
     (case map_of mets p of
        None \<Rightarrow> None
      | Some ms \<Rightarrow> if i < length ms then Some (ms ! i) else None)"

definition on_metric ::
  "string \<Rightarrow> nat \<Rightarrow> ('am metric \<Rightarrow> 'am metric) \<Rightarrow> (string \<times> 'am metric list) list \<Rightarrow>
   (string \<times> 'am metric list) list" where
  "on_metric p i f mets =
     (case map_of mets p of
        None \<Rightarrow> mets
      | Some ms \<Rightarrow> AList.update p (ms[i := f (ms ! i)]) mets)"

fun replay_event ::
  "('x, 'mm, 'am) collaborators \<Rightarrow> 'x event \<Rightarrow> 'mm \<times> (string \<times> 'am metric list) list \<Rightarrow>
   ('mm \<times> (string \<times> 'am metric list) list) option" where
  "replay_event ops (Fit p x y l pr) (mm, mets) =
     (if fst (mm_fit ops mm x y p) = (l, pr) then Some (snd (mm_fit ops mm x y p), mets)
      else None)"
| "replay_event ops (Predict x pr) (mm, mets) =
     (if fst (mm_predict ops mm x) = pr then Some (snd (mm_predict ops mm x), mets) else None)"
| "replay_event ops (MetricUpdate p i l pr y) (mm, mets) =
     (case metric_at mets p i of
        None \<Rightarrow> None
      | Some m \<Rightarrow> Some (mm, on_metric p i (metric_update ops l pr y) mets))"
| "replay_event ops (UpdateBest p i sm bf) (mm, mets) =
     (case metric_at mets p i of
        None \<Rightarrow> None
      | Some m \<Rightarrow>
          if sm = save_model m \<and> bf = fst (update_best ops (average_meter m))
          then Some (mm, on_metric p i
                 (\<lambda>m. m\<lparr>average_meter := snd (update_best ops (average_meter m))\<rparr>) mets)
          else None)"
| "replay_event ops (MeterReset p i) (mm, mets) =
     (case metric_at mets p i of
        None \<Rightarrow> None
      | Some m \<Rightarrow>
          Some (mm, on_metric p i (\<lambda>m. m\<lparr>average_meter := reset ops (average_meter m)\<rparr>) mets))"
| "replay_event ops SaveModel (mm, mets) = Some (mm_save_model ops mm, mets)"
| "replay_event ops LoadModel (mm, mets) = Some (mm_load_model ops mm, mets)"
| "replay_event ops (AnnealLr la) (mm, mets) = Some (mm_anneal_lr ops la mm, mets)"
| "replay_event ops (PhaseBegin e p) w = Some w"
| "replay_event ops (RecordLog p e) w = Some w"
| "replay_event ops LoggerClose w = Some w"

fun replay ::
  "('x, 'mm, 'am) collaborators \<Rightarrow> 'x event list \<Rightarrow> 'mm \<times> (string \<times> 'am metric list) list \<Rightarrow>
   ('mm \<times> (string \<times> 'am metric list) list) option" where
  "replay ops [] w = Some w"
| "replay ops (e # es) w =
     (case replay_event ops e w of None \<Rightarrow> None | Some w' \<Rightarrow> replay ops es w')"

definition world_of ::
  "('x, 'mm, 'am) train_manager \<Rightarrow> 'mm \<times> (string \<times> 'am metric list) list" where
  "world_of s = (model_manager s, metrics s)"

definition logged ::
  "('x, 'mm, 'am) collaborators \<Rightarrow> ('x, 'mm, 'am) train_manager \<Rightarrow>
   ('x, 'mm, 'am) train_manager \<Rightarrow> bool" where
  "logged ops s s' \<longleftrightarrow>
     take (length (calls s)) (calls s') = calls s
     \<and> replay ops (drop (length (calls s)) (calls s')) (world_of s) = Some (world_of s')"

text \<open>
  The loops over epochs and phases as one loop over the iterations \<open>(epoch, phase)\<close>; a
  prefix of the list is the run up to the end of some phase of some epoch.
\<close>

fun iter_loop ::
  "('x, 'mm, 'am) collaborators \<Rightarrow> (nat \<times> string) list \<Rightarrow>
   ndarray \<times> ('x, 'mm, 'am) train_manager \<Rightarrow>
   error + (ndarray \<times> ('x, 'mm, 'am) train_manager)" where
  "iter_loop ops [] st = Inr st"
| "iter_loop ops (it # its) st =
     (case run_phase ops (fst it) (snd it) st of
        Inl e \<Rightarrow> Inl e
      | Inr st' \<Rightarrow> iter_loop ops its st')"

section \<open>Concrete runs\<close>

text \<open>
  A small set of collaborators and a manager on which the functions above can be run:
  batches are numbers, \<^verbatim>\<open>fit\<close> and \<^verbatim>\<open>predict\<close> return the batch number as the only
  prediction, the model manager's state is the learning rate with the number of
  checkpoints written, a meter is a pair (value of the epoch, best value so far). The numbers averaged in the runs below have an
  exact float64 mean, so \<open>np_mean\<close> is the exact mean here.
\<close>

definition demo_ops :: "(nat, real \<times> nat, int \<times> int) collaborators" where
  "demo_ops = \<lparr>
     mm_fit = (\<lambda>mm x labels phase. ((real x, [real x]), mm)),
     mm_predict = (\<lambda>mm x. ([real x], mm)),
     mm_save_model = (\<lambda>(lr, saves). (lr, Suc saves)),
     mm_load_model = (\<lambda>mm. mm),
     mm_anneal_lr = (\<lambda>la (lr, saves). (lr / la, saves)),
     mm_criterion = (\<lambda>mm preds labels. 0),
     metric_update = (\<lambda>loss preds labels m.
        m\<lparr>average_meter := (fst (average_meter m) + int (length preds), snd (average_meter m))\<rparr>),
     update_best = (\<lambda>(v, best). (best < v, (v, max v best))),
     reset = (\<lambda>(v, best). (0, best)),
     np_mean = (\<lambda>xs. sum_list xs / real (length xs)),
     confusion_matrix = (\<lambda>y_true y_pred n.
        if list_all (\<lambda>v. v = of_int \<lfloor>v\<rfloor>) (y_true @ y_pred) then None
        else Some ValueError) \<rparr>"

definition demo_loader :: "nat list \<Rightarrow> nat dataloader" where
  "demo_loader xs = \<lparr> batches = map (\<lambda>x. (x, [1])) xs, get_input_size = [1],
     get_batch_norm_size = [1], get_seq_len = [1], get_image_size = [1, 1],
     get_n_channels = [1] \<rparr>"

definition demo_cfg :: config where
  "demo_cfg = \<lparr> epochs = 2, retrain_epochs = 1, learning_anneal = 2, tta = 0, batch_size = 1,
     silent = True, return_prob = False, task_type = ''classify'', model_type = ''cnn'',
     batch_norm = False, input_size = None, batch_norm_size = None, seq_len = None,
     image_size = None, n_channels = None \<rparr>"

definition demo_metric :: "bool \<Rightarrow> (int \<times> int) metric" where
  "demo_metric sm = \<lparr>name = ''loss'', save_model = sm, average_meter = (0, 0)\<rparr>"

definition demo_manager :: "(nat, real \<times> nat, int \<times> int) train_manager" where
  "demo_manager = \<lparr> class_labels = [''0'', ''1''], cfg = demo_cfg,
     dataloaders = [(''train'', demo_loader [1, 2]), (''val'', demo_loader [3])],
     model_manager = (1, 0), logger = False,
     metrics = [(''train'', [demo_metric False]), (''val'', [demo_metric True])],
     calls = [] \<rparr>"

text \<open>The same manager with two augmented copies of two test samples.\<close>

definition demo_tta_manager :: "(nat, real \<times> nat, int \<times> int) train_manager" where
  "demo_tta_manager =
     demo_manager\<lparr> cfg := demo_cfg\<lparr>tta := 2\<rparr>,
                    dataloaders := [(''test'', demo_loader [1, 2, 3, 4])] \<rparr>"

text \<open>A manager set up for \<^verbatim>\<open>retrain\<close>, and one whose metrics dictionary is empty.\<close>

definition demo_retrain_manager :: "(nat, real \<times> nat, int \<times> int) train_manager" where
  "demo_retrain_manager =
     demo_manager\<lparr> dataloaders := [(''retrain'', demo_loader [1, 2]),
                                     (''retrain_test'', demo_loader [3])],
                    metrics := [(''retrain'', [demo_metric False]),
                                (''retrain_test'', [demo_metric False]),
                                (''test'', [demo_metric False])] \<rparr>"

definition demo_bare_manager :: "(nat, real \<times> nat, int \<times> int) train_manager" where
  "demo_bare_manager =
     demo_manager\<lparr> dataloaders := [(''retrain'', demo_loader []),
                                     (''retrain_test'', demo_loader [3])],
                    metrics := [] \<rparr>"

definition demo_estimator :: "(nat, nat, nat, nat) estimator" where
  "demo_estimator = \<lparr>
     est_fit = (\<lambda>m x y. (None, Suc (m + x + y))),
     est_predict = (\<lambda>m x. if m = 0 then Inl NotFittedError else Inr (m + x)),
     est_predict_proba = (\<lambda>m x. if m = 0 then Inl NotFittedError else Inr (m + x)),
     log_loss = (\<lambda>y p labels. Inr 0) \<rparr>"

text \<open>
  Disks with no file on which every path can be opened for writing, but for the paths
  into the directory \<^verbatim>\<open>missing\<close>.
\<close>

definition demo_files :: "nat files" where
  "demo_files = \<lparr>can_open = (\<lambda>fname. take 8 fname \<noteq> ''missing/''), pickled = Map.empty\<rparr>"

definition demo_disk :: disk where
  "demo_disk = \<lparr>may_open = (\<lambda>path. take 8 path \<noteq> ''missing/''), texts = Map.empty\<rparr>"

text \<open>
  A model manager that returns two values for each sample (as class probabilities are),
  with two augmented copies of one test sample.
\<close>

definition demo_proba_ops :: "(nat, real \<times> nat, int \<times> int) collaborators" where
  "demo_proba_ops = demo_ops\<lparr>mm_predict := (\<lambda>mm x. ([real x, real x + 1], mm))\<rparr>"

definition demo_proba_manager :: "(nat, real \<times> nat, int \<times> int) train_manager" where
  "demo_proba_manager =
     demo_manager\<lparr> cfg := demo_cfg\<lparr>tta := 2\<rparr>,
                    dataloaders := [(''test'', demo_loader [1, 3])] \<rparr>"

section \<open>The call log of \<^verbatim>\<open>train\<close>\<close>

subsection \<open>\<^verbatim>\<open>_update_by_epoch\<close>\<close>

lemma update_metrics_loop_calls:
  "calls (snd (snd (update_metrics_loop ops p ms i (f, v, s)))) = calls s @ best_events p i (best_flags ops ms)"
  by (induction ms arbitrary: i f v s)
     (simp_all add: best_flags_def record_call_def split_beta Let_def)

lemma update_metrics_loop_visited:
  "fst (snd (update_metrics_loop ops p ms i (f, v, s))) = v @ reset_all ops ms"
  by (induction ms arbitrary: i f v s)
     (simp_all add: reset_all_def record_call_def split_beta Let_def)

lemma update_metrics_loop_flag:
  "fst (update_metrics_loop ops p ms i (f, v, s)) =
     (f \<or> (p = ''val'' \<and> (\<exists>b \<in> set (best_flags ops ms). fst b \<and> snd b)))"
  by (induction ms arbitrary: i f v s)
     (auto simp add: best_flags_def record_call_def split_beta Let_def)

lemma update_metrics_loop_frame:
  "cfg (snd (snd (update_metrics_loop ops p ms i (f, v, s)))) = cfg s \<and>
   logger (snd (snd (update_metrics_loop ops p ms i (f, v, s)))) = logger s \<and>
   dataloaders (snd (snd (update_metrics_loop ops p ms i (f, v, s)))) = dataloaders s \<and>
   metrics (snd (snd (update_metrics_loop ops p ms i (f, v, s)))) = metrics s"
  by (induction ms arbitrary: i f v s)
     (simp_all add: record_call_def split_beta Let_def)

subsection \<open>One phase of one epoch\<close>

lemma same_frame_refl: "same_frame s s"
  by (simp add: same_frame_def)

lemma same_frame_trans: "same_frame s s' \<Longrightarrow> same_frame s' s'' \<Longrightarrow> same_frame s s''"
  by (simp add: same_frame_def)

lemma batch_loop_shape:
  "batch_loop ops p bs (pl, ll, s) = Inr (pl', ll', s') \<Longrightarrow>
   \<exists>fits. calls s' = calls s @ fit_events p fits
     \<and> pl' = pl @ concat (map fit_predicts fits) \<and> ll' = ll @ concat (map fit_labels fits)
     \<and> same_frame s s' \<and> (\<forall>q. q \<noteq> p \<longrightarrow> map_of (metrics s') q = map_of (metrics s) q)"
proof (induction bs arbitrary: pl ll s)
  case Nil
  then have "s' = s" "pl' = pl" "ll' = ll" by simp_all
  then have "calls s' = calls s @ fit_events p []
     \<and> pl' = pl @ concat (map fit_predicts ([]::'a fit_call list))
     \<and> ll' = ll @ concat (map fit_labels ([]::'a fit_call list))
     \<and> same_frame s s' \<and> (\<forall>q. q \<noteq> p \<longrightarrow> map_of (metrics s') q = map_of (metrics s) q)"
    by (simp add: fit_events_def same_frame_refl)
  then show ?case by blast
next
  case (Cons b bs)
  obtain inputs labels where b: "b = (inputs, labels)" by (cases b)
  obtain loss predicts mm' where f: "mm_fit ops (model_manager s) inputs labels p = ((loss, predicts), mm')"
    by (metis surj_pair)
  define s1 where "s1 = record_call [Fit p inputs labels loss predicts] (s\<lparr>model_manager := mm'\<rparr>)"
  from Cons.prems b f obtain m ms where
    look: "map_of (metrics s1) p = Some (m # ms)" and
    rest: "batch_loop ops p bs (pl @ predicts, ll @ labels,
             record_call [MetricUpdate p 0 loss predicts labels]
               (s1\<lparr>metrics := AList.update p (metric_update ops loss predicts labels m # ms) (metrics s1)\<rparr>))
           = Inr (pl', ll', s')"
    by (auto simp add: s1_def Let_def split: option.splits list.splits)
  define s2 where "s2 = record_call [MetricUpdate p 0 loss predicts labels]
               (s1\<lparr>metrics := AList.update p (metric_update ops loss predicts labels m # ms) (metrics s1)\<rparr>)"
  from Cons.IH[OF rest[folded s2_def]] obtain fits where
    ih: "calls s' = calls s2 @ fit_events p fits"
        "pl' = (pl @ predicts) @ concat (map fit_predicts fits)"
        "ll' = (ll @ labels) @ concat (map fit_labels fits)"
        "same_frame s2 s'" "\<forall>q. q \<noteq> p \<longrightarrow> map_of (metrics s') q = map_of (metrics s2) q"
    by blast
  define fc where "fc = \<lparr>fit_inputs = inputs, fit_labels = labels, fit_loss = loss,
                          fit_predicts = predicts\<rparr>"
  have c2: "calls s2 = calls s @ [Fit p inputs labels loss predicts,
                                  MetricUpdate p 0 loss predicts labels]"
    by (simp add: s2_def s1_def record_call_def)
  have m1: "metrics s1 = metrics s" by (simp add: s1_def record_call_def)
  have fr: "same_frame s s2"
    using look by (auto simp add: same_frame_def s2_def s1_def record_call_def update_conv')
  have oth: "\<forall>q. q \<noteq> p \<longrightarrow> map_of (metrics s2) q = map_of (metrics s) q"
    by (simp add: s2_def s1_def record_call_def update_conv')
  have "calls s' = calls s @ fit_events p (fc # fits)"
    using ih(1) c2 by (simp add: fit_events_def fc_def)
  moreover have "pl' = pl @ concat (map fit_predicts (fc # fits))"
    using ih(2) by (simp add: fc_def)
  moreover have "ll' = ll @ concat (map fit_labels (fc # fits))"
    using ih(3) by (simp add: fc_def)
  moreover have "same_frame s s'" using fr ih(4) by (rule same_frame_trans)
  moreover have "\<forall>q. q \<noteq> p \<longrightarrow> map_of (metrics s') q = map_of (metrics s) q"
    using ih(5) oth by simp
  ultimately show ?case by blast
qed

lemma update_by_epoch_shape:
  assumes "map_of (metrics s) p = Some ms"
  shows "\<exists>s'. update_by_epoch ops p la s =
           Inr (p = ''val'' \<and> (\<exists>b \<in> set (best_flags ops ms). fst b \<and> snd b), s')
     \<and> calls s' = calls s @ best_events p 0 (best_flags ops ms)
                    @ (if p = ''train'' then [AnnealLr la] else [])
     \<and> metrics s' = AList.update p (reset_all ops ms) (metrics s)
     \<and> cfg s' = cfg s \<and> logger s' = logger s \<and> dataloaders s' = dataloaders s"
proof -
  obtain f v s1 where r: "update_metrics_loop ops p ms 0 (False, [], s) = (f, v, s1)"
    by (metis surj_pair)
  have f: "f = (p = ''val'' \<and> (\<exists>b \<in> set (best_flags ops ms). fst b \<and> snd b))"
    using update_metrics_loop_flag[of ops p ms 0 False "[]" s] r by simp
  have v: "v = reset_all ops ms"
    using update_metrics_loop_visited[of ops p ms 0 False "[]" s] r by simp
  have c: "calls s1 = calls s @ best_events p 0 (best_flags ops ms)"
    using update_metrics_loop_calls[of ops p ms 0 False "[]" s] r by simp
  have fr: "cfg s1 = cfg s" "logger s1 = logger s" "dataloaders s1 = dataloaders s" "metrics s1 = metrics s"
    using update_metrics_loop_frame[of ops p ms 0 False "[]" s] r by simp_all
  show ?thesis
    using assms r f v c fr by (simp add: update_by_epoch_def record_call_def)
qed

lemma registered_frame: "same_frame s s' \<Longrightarrow> registered s' b = registered s b"
  by (simp add: same_frame_def registered_def)

lemma run_phase_shape:
  assumes "run_phase ops e p (bvp, s) = Inr (bvp', s')"
  shows "\<exists>b. b_epoch b = e \<and> b_phase b = p
     \<and> calls s' = calls s @ block_events (learning_anneal (cfg s)) (logger s) b
     \<and> bvp' = (if block_saved b then block_pred b else bvp)
     \<and> same_frame s s' \<and> registered s b \<and> meters_reset ops s' p
     \<and> (\<forall>q. q \<noteq> p \<longrightarrow> map_of (metrics s') q = map_of (metrics s) q)"
proof -
  define s0 where "s0 = record_call [PhaseBegin e p] s"
  from assms obtain dl where dl: "map_of (dataloaders s) p = Some dl"
    by (auto simp add: run_phase_def split: option.splits)
  from assms dl obtain pl ll s1 where
    bl: "batch_loop ops p (batches dl) ([], [], s0) = Inr (pl, ll, s1)"
    by (auto simp add: run_phase_def s0_def split: sum.splits)
  from assms dl bl obtain ms where ms: "map_of (metrics s1) p = Some ms"
    by (auto simp add: run_phase_def s0_def split: option.splits)
  define ms' where "ms' = take 1 ms @ map (metric_update ops 0 pl ll) (drop 1 ms)"
  define s2 where "s2 = record_call (map (\<lambda>i. MetricUpdate p i 0 pl ll) [1..<length ms])
                      (s1\<lparr>metrics := AList.update p ms' (metrics s1)\<rparr>)"
  define s3 where "s3 = (if logger s2 then record_call [RecordLog p e] s2 else s2)"
  have "run_phase ops e p (bvp, s) =
      (case update_by_epoch ops p (learning_anneal (cfg s3)) s3 of
         Inl err \<Rightarrow> Inl err
       | Inr (flag, s4) \<Rightarrow> Inr (if flag then pl else bvp, s4))"
    using dl bl ms by (simp add: run_phase_def s3_def s2_def ms'_def s0_def Let_def)
  with assms obtain flag where
    ube: "update_by_epoch ops p (learning_anneal (cfg s3)) s3 = Inr (flag, s')" and
    bvp': "bvp' = (if flag then pl else bvp)"
    by (auto split: sum.splits)
  from batch_loop_shape[OF bl] obtain fits where
    f: "calls s1 = calls s0 @ fit_events p fits" "pl = concat (map fit_predicts fits)"
       "same_frame s0 s1" "\<forall>q. q \<noteq> p \<longrightarrow> map_of (metrics s1) q = map_of (metrics s0) q"
       "ll = concat (map fit_labels fits)"
    by auto
  have len: "length ms' = length ms"
    by (cases ms) (simp_all add: ms'_def)
  have m3: "map_of (metrics s3) p = Some ms'"
    by (simp add: s3_def s2_def record_call_def update_conv')
  from update_by_epoch_shape[OF m3, of ops "learning_anneal (cfg s3)"] ube
  have u: "flag = (p = ''val'' \<and> (\<exists>b \<in> set (best_flags ops ms'). fst b \<and> snd b))"
      "calls s' = calls s3 @ best_events p 0 (best_flags ops ms')
                    @ (if p = ''train'' then [AnnealLr (learning_anneal (cfg s3))] else [])"
      "metrics s' = AList.update p (reset_all ops ms') (metrics s3)"
      "cfg s' = cfg s3" "logger s' = logger s3" "dataloaders s' = dataloaders s3"
    by auto
  have fr0: "same_frame s s0" by (simp add: s0_def same_frame_def record_call_def)
  have fr01: "same_frame s s1" using fr0 f(3) by (rule same_frame_trans)
  have fr13: "same_frame s1 s3"
    using ms len by (auto simp add: same_frame_def s3_def s2_def record_call_def update_conv')
  have fr3': "same_frame s3 s'"
    using m3 u(3,4,5,6) by (auto simp add: same_frame_def update_conv' reset_all_def)
  have fr: "same_frame s s'"
    using fr01 fr13 fr3' same_frame_trans by blast
  have cfg3: "cfg s3 = cfg s" "logger s3 = logger s" "logger s2 = logger s"
    using fr01 fr13 by (simp_all add: same_frame_def s3_def s2_def record_call_def)
  define b where "b = \<lparr>b_epoch = e, b_phase = p, b_fits = fits, b_bests = best_flags ops ms'\<rparr>"
  have lb: "length (b_bests b) = length ms"
    by (simp add: b_def best_flags_def len)
  have c3: "calls s3 = calls s @ PhaseBegin e p # fit_events p fits
              @ map (\<lambda>i. MetricUpdate p i 0 pl ll) [1..<length ms]
              @ (if logger s then [RecordLog p e] else [])"
    using f(1) cfg3 by (simp add: s3_def s2_def s0_def record_call_def)
  have calls: "calls s' = calls s @ block_events (learning_anneal (cfg s)) (logger s) b"
    using u(2) c3 cfg3(1) lb f(2,5)
    by (simp add: block_events_def block_body_def block_pred_def block_labels_def b_def)
  have saved: "block_saved b = flag"
    by (simp add: block_saved_def b_def u(1))
  have pred: "block_pred b = pl"
    by (simp add: block_pred_def b_def f(2))
  have "map_option length (map_of (metrics s1) p) = map_option length (map_of (metrics s) p)"
    using fr01 by (simp add: same_frame_def)
  moreover have bp: "b_phase b = p" by (simp add: b_def)
  ultimately have reg: "registered s b"
    using ms lb by (simp add: registered_def)
  have res: "meters_reset ops s' p"
    unfolding meters_reset_def using u(3) by (auto simp add: update_conv')
  have oth: "\<forall>q. q \<noteq> p \<longrightarrow> map_of (metrics s') q = map_of (metrics s) q"
    using f(4) u(3) by (simp add: s3_def s2_def s0_def record_call_def update_conv')
  have "b_epoch b = e" "b_phase b = p" by (simp_all add: b_def)
  with calls bvp' saved pred fr reg res oth show ?thesis by metis
qed

subsection \<open>The loops\<close>

lemma run_shape_Nil: "run_shape ops st st []"
  by (simp add: run_shape_def best_val_pred_after_def same_frame_refl)

lemma run_shape_append:
  assumes "run_shape ops st st1 bs1" and "run_shape ops st1 st2 bs2"
  shows "run_shape ops st st2 (bs1 @ bs2)"
proof -
  have fr: "same_frame (snd st) (snd st1)" using assms(1) by (simp add: run_shape_def)
  then have eq: "cfg (snd st1) = cfg (snd st)" "logger (snd st1) = logger (snd st)"
    by (simp_all add: same_frame_def)
  have "\<forall>b \<in> set bs2. registered (snd st) b"
    using assms(2) registered_frame[OF fr] by (simp add: run_shape_def)
  moreover have "same_frame (snd st) (snd st2)"
    using fr assms(2) by (auto simp add: run_shape_def intro: same_frame_trans)
  ultimately show ?thesis
    using assms eq by (auto simp add: run_shape_def best_val_pred_after_def)
qed

lemma run_phase_run_shape:
  assumes "run_phase ops e p st = Inr st'"
  shows "\<exists>b. b_iter b = (e, p) \<and> run_shape ops st st' [b]"
proof -
  obtain bvp s bvp' s' where st: "st = (bvp, s)" "st' = (bvp', s')"
    by (metis surj_pair)
  from run_phase_shape[OF assms[unfolded st]] obtain b where b:
    "b_epoch b = e" "b_phase b = p"
    "calls s' = calls s @ block_events (learning_anneal (cfg s)) (logger s) b"
    "bvp' = (if block_saved b then block_pred b else bvp)"
    "same_frame s s'" "registered s b" "meters_reset ops s' p"
    "\<forall>q. q \<noteq> p \<longrightarrow> map_of (metrics s') q = map_of (metrics s) q"
    by blast
  have "\<forall>q. meters_reset ops s q \<longrightarrow> meters_reset ops s' q"
    using b(7,8) by (metis meters_reset_def)
  then have "run_shape ops st st' [b]"
    using b by (simp add: run_shape_def st best_val_pred_after_def)
  moreover have "b_iter b = (e, p)" using b(1,2) by (simp add: b_iter_def)
  ultimately show ?thesis by blast
qed

lemma phase_loop_run_shape:
  "phase_loop ops e ps st = Inr st' \<Longrightarrow>
   \<exists>bs. map b_iter bs = map (Pair e) ps \<and> run_shape ops st st' bs"
proof (induction ps arbitrary: st)
  case Nil
  then have "st' = st" by simp
  then have "map b_iter [] = map (Pair e) [] \<and> run_shape ops st st' []"
    by (simp add: run_shape_Nil)
  then show ?case by blast
next
  case (Cons p ps)
  from Cons.prems obtain st1 where
    1: "run_phase ops e p st = Inr st1" and 2: "phase_loop ops e ps st1 = Inr st'"
    by (auto split: sum.splits)
  from run_phase_run_shape[OF 1] obtain b where
    b: "b_iter b = (e, p)" "run_shape ops st st1 [b]" by blast
  from Cons.IH[OF 2] obtain bs where
    bs: "map b_iter bs = map (Pair e) ps" "run_shape ops st1 st' bs" by blast
  have "map b_iter (b # bs) = map (Pair e) (p # ps)" using b(1) bs(1) by simp
  moreover have "run_shape ops st st' (b # bs)"
    using run_shape_append[OF b(2) bs(2)] by simp
  ultimately show ?case by blast
qed

lemma epoch_loop_run_shape:
  "epoch_loop ops ps es st = Inr st' \<Longrightarrow>
   \<exists>bs. map b_iter bs = List.product es ps \<and> run_shape ops st st' bs"
proof (induction es arbitrary: st)
  case Nil
  then have "st' = st" by simp
  then have "map b_iter [] = List.product [] ps \<and> run_shape ops st st' []"
    by (simp add: run_shape_Nil)
  then show ?case by blast
next
  case (Cons e es)
  from Cons.prems obtain st1 where
    1: "phase_loop ops e ps st = Inr st1" and 2: "epoch_loop ops ps es st1 = Inr st'"
    by (auto split: sum.splits)
  from phase_loop_run_shape[OF 1] obtain bs1 where
    b1: "map b_iter bs1 = map (Pair e) ps" "run_shape ops st st1 bs1" by blast
  from Cons.IH[OF 2] obtain bs2 where
    b2: "map b_iter bs2 = List.product es ps" "run_shape ops st1 st' bs2" by blast
  have "map b_iter (bs1 @ bs2) = List.product (e # es) ps" using b1(1) b2(1) by simp
  moreover have "run_shape ops st st' (bs1 @ bs2)"
    using run_shape_append[OF b1(2) b2(2)] .
  ultimately show ?case by blast
qed

lemma train_shape:
  assumes "train ops mmo wv ov s0 = Inr ((ms, bvp), s')"
  shows "\<exists>bs s1. map b_iter bs = List.product [0..<nat (epochs (cfg s0))] (phases_of wv ov)
     \<and> run_shape ops ([], entered mmo s0) (bvp, s1) bs
     \<and> calls s' = calls s1 @ closing_events (logger s0) wv
     \<and> metrics s' = metrics s1 \<and> ms = metrics s'"
proof -
  define s where "s = entered mmo s0"
  have s: "cfg s = cfg s0" "logger s = logger s0"
    by (simp_all add: s_def entered_def split: option.splits)
  from assms obtain bvp1 s1 where
    el: "epoch_loop ops (phases_of wv ov) [0..<nat (epochs (cfg s))] ([], s) = Inr (bvp1, s1)"
    by (auto simp add: train_def s_def entered_def Let_def split: sum.splits)
  from assms el have
    fin: "bvp = bvp1" "ms = metrics s'"
         "calls s' = calls s1 @ closing_events (logger s1) wv" "metrics s' = metrics s1"
    by (auto simp add: train_def s_def[symmetric] entered_def[symmetric] Let_def record_call_def
          closing_events_def split: sum.splits if_splits)
  from epoch_loop_run_shape[OF el] obtain bs where
    bs: "map b_iter bs = List.product [0..<nat (epochs (cfg s))] (phases_of wv ov)"
        "run_shape ops ([], s) (bvp1, s1) bs" by blast
  have "logger s1 = logger s0" using bs(2) s by (simp add: run_shape_def same_frame_def)
  with bs fin s show ?thesis unfolding s_def by auto
qed

lemma train_calls:
  assumes "train ops mmo wv ov s0 = Inr ((ms, bvp), s')"
  shows "\<exists>bs. map b_iter bs = List.product [0..<nat (epochs (cfg s0))] (phases_of wv ov)
     \<and> calls s' = calls s0
          @ concat (map (block_events (learning_anneal (cfg s0)) (logger s0)) bs)
          @ closing_events (logger s0) wv
     \<and> bvp = best_val_pred_after [] bs
     \<and> (\<forall>b \<in> set bs. registered s0 b)
     \<and> ms = metrics s'
     \<and> (\<forall>b \<in> set bs. meters_reset ops s' (b_phase b))"
proof -
  from train_shape[OF assms] obtain bs s1 where
    1: "map b_iter bs = List.product [0..<nat (epochs (cfg s0))] (phases_of wv ov)"
       "run_shape ops ([], entered mmo s0) (bvp, s1) bs"
       "calls s' = calls s1 @ closing_events (logger s0) wv"
       "metrics s' = metrics s1" "ms = metrics s'"
    by blast
  have e: "cfg (entered mmo s0) = cfg s0" "logger (entered mmo s0) = logger s0"
          "calls (entered mmo s0) = calls s0" "metrics (entered mmo s0) = metrics s0"
    by (simp_all add: entered_def split: option.splits)
  have "\<forall>b \<in> set bs. registered s0 b"
    using 1(2) e(4) by (simp add: run_shape_def registered_def)
  moreover have "\<forall>b \<in> set bs. meters_reset ops s' (b_phase b)"
    using 1(2,4) by (simp add: run_shape_def meters_reset_def)
  moreover have "calls s' = calls s0
          @ concat (map (block_events (learning_anneal (cfg s0)) (logger s0)) bs)
          @ closing_events (logger s0) wv"
    using 1(2,3) e by (simp add: run_shape_def)
  moreover have "bvp = best_val_pred_after [] bs"
    using 1(2) by (simp add: run_shape_def)
  ultimately show ?thesis using 1(1,5) by blast
qed

subsection \<open>Iterations in the log\<close>

lemma phase_iterations_append:
  "phase_iterations (xs @ ys) = phase_iterations xs @ phase_iterations ys"
  by (induction xs rule: phase_iterations.induct) simp_all

lemma phase_iterations_fit_events: "phase_iterations (fit_events p fits) = []"
  by (induction fits) (simp_all add: fit_events_def split_beta)

lemma phase_iterations_updates: "phase_iterations (map (\<lambda>i. MetricUpdate p i l pr y) xs) = []"
  by (induction xs) simp_all

lemma phase_iterations_best_events: "phase_iterations (best_events p i bests) = []"
  by (induction p i bests rule: best_events.induct) (simp_all add: phase_iterations_append)

lemma block_events_body:
  "block_events la lg b =
     PhaseBegin (b_epoch b) (b_phase b) # block_body lg b
       @ (if b_phase b = ''train'' then [AnnealLr la] else [])"
  by (simp add: block_events_def)

lemma phase_iterations_body: "phase_iterations (block_body lg b) = []"
  by (simp add: block_body_def phase_iterations_append phase_iterations_fit_events
      phase_iterations_updates phase_iterations_best_events)

lemma phase_iterations_block: "phase_iterations (block_events la lg b) = [b_iter b]"
  by (simp add: block_events_body phase_iterations_append phase_iterations_body b_iter_def)

lemma phase_iterations_blocks:
  "phase_iterations (concat (map (block_events la lg) bs)) = map b_iter bs"
  by (induction bs) (simp_all add: phase_iterations_append phase_iterations_block)

lemma phase_iterations_closing: "phase_iterations (closing_events lg wv) = []"
  by (simp add: closing_events_def)

lemma phases_of_cases:
  "phases_of wv ov = (if ov then [''val''] else if wv then [''train'', ''val''] else [''train''])"
  by (simp add: phases_of_def)

subsection \<open>Annealing in the log\<close>

lemma no_anneal_fit_events: "filter is_anneal (fit_events p fits) = []"
  by (induction fits) (simp_all add: fit_events_def split_beta)

lemma no_anneal_updates: "filter is_anneal (map (\<lambda>i. MetricUpdate p i l pr y) xs) = []"
  by (induction xs) simp_all

lemma no_anneal_best_events: "filter is_anneal (best_events p i bests) = []"
  by (induction p i bests rule: best_events.induct) simp_all

lemma no_anneal_body: "filter is_anneal (block_body lg b) = []"
  by (simp add: block_body_def no_anneal_fit_events no_anneal_updates no_anneal_best_events)

lemma no_anneal_closing: "filter is_anneal (closing_events lg wv) = []"
  by (simp add: closing_events_def)

lemma anneal_block_events: "anneal_block la (b_iter b) (block_events la lg b)"
  by (simp add: anneal_block_def b_iter_def block_events_body phase_iterations_append
      phase_iterations_body no_anneal_body)

lemma list_all2_blocks:
  assumes "\<And>b. P (f b) (g b)"
  shows "list_all2 P (map f bs) (map g bs)"
  using assms by (induction bs) simp_all

subsection \<open>Checkpoints in the log\<close>

lemma train_blocks_phase:
  assumes "map b_iter bs = List.product es [p]" and "b \<in> set bs"
  shows "b_phase b = p"
proof -
  have "b_iter b \<in> set (List.product es [p])"
    using assms by (metis imageI set_map)
  then show ?thesis by (auto simp add: b_iter_def)
qed

lemma no_save_fit_events: "SaveModel \<notin> set (fit_events p fits)"
  by (induction fits) (auto simp add: fit_events_def)

lemma no_save_best_events: "p \<noteq> ''val'' \<Longrightarrow> SaveModel \<notin> set (best_events p i bests)"
  by (induction p i bests rule: best_events.induct) auto

lemma no_save_train_block: "b_phase b = ''train'' \<Longrightarrow> SaveModel \<notin> set (block_events la lg b)"
  using no_save_fit_events[of "b_phase b" "b_fits b"] no_save_best_events[of "b_phase b" 0 "b_bests b"]
  by (auto simp add: block_events_def block_body_def)











subsection \<open>Meter resets in the log\<close>

lemma meter_resets_append: "meter_resets (xs @ ys) = meter_resets xs @ meter_resets ys"
  by (induction xs rule: meter_resets.induct) simp_all

lemma meter_updates_append: "meter_updates (xs @ ys) = meter_updates xs @ meter_updates ys"
  by (induction xs rule: meter_updates.induct) simp_all

lemma meter_resets_fit_events: "meter_resets (fit_events p fits) = []"
  by (induction fits) (simp_all add: fit_events_def split_beta)

lemma meter_resets_updates: "meter_resets (map (\<lambda>i. MetricUpdate p i l pr y) xs) = []"
  by (induction xs) simp_all

lemma meter_resets_best_events:
  "meter_resets (best_events p i bests) = map (Pair p) [i..<i + length bests]"
proof (induction bests arbitrary: i)
  case Nil
  show ?case by simp
next
  case (Cons x r)
  obtain sm bf where x: "x = (sm, bf)" by (cases x)
  have "[i..<i + Suc (length r)] = i # [Suc i..<i + Suc (length r)]"
    by (rule upt_conv_Cons) simp
  then have "[i..<i + length (x # r)] = i # [Suc i..<Suc i + length r]"
    by simp
  then show ?case by (simp only: x best_events.simps meter_resets_append meter_resets.simps
        Cons.IH list.map append_Nil append_Cons split: if_split) simp
qed

lemma meter_updates_best_events: "meter_updates (best_events p i bests) = []"
  by (induction bests arbitrary: i) (auto simp add: meter_updates_append)

lemma meter_updates_dropWhile: "meter_updates ys = [] \<Longrightarrow> meter_updates (dropWhile P ys) = []"
  by (induction ys rule: meter_updates.induct) (auto split: if_splits)

lemma no_reset_fit_events: "x \<in> set (fit_events p fits) \<Longrightarrow> \<not> is_reset x"
  by (induction fits) (auto simp add: fit_events_def)

lemma meter_resets_block:
  "meter_resets (block_events la lg b) = map (Pair (b_phase b)) [0..<length (b_bests b)]"
  by (simp add: block_events_def block_body_def meter_resets_append meter_resets_fit_events
      meter_resets_updates meter_resets_best_events)

lemma meter_updates_after_reset:
  fixes b :: "'a block"
  shows "meter_updates (dropWhile (\<lambda>x. \<not> is_reset x) (block_events la lg b)) = []"
proof -
  define pre where "pre = PhaseBegin (b_epoch b) (b_phase b) # fit_events (b_phase b) (b_fits b)
       @ map (\<lambda>i. MetricUpdate (b_phase b) i 0 (block_pred b) (block_labels b))
           [1..<length (b_bests b)]
       @ (if lg then [RecordLog (b_phase b) (b_epoch b)] else [])"
  define post :: "'a event list" where "post = best_events (b_phase b) 0 (b_bests b)
       @ (if b_phase b = ''train'' then [AnnealLr la] else [])"
  have split: "block_events la lg b = pre @ post"
    by (simp add: block_events_def block_body_def pre_def post_def)
  have "\<And>x. x \<in> set pre \<Longrightarrow> \<not> is_reset x"
    using no_reset_fit_events by (auto simp add: pre_def)
  then have "dropWhile (\<lambda>x. \<not> is_reset x) (pre @ post) = dropWhile (\<lambda>x. \<not> is_reset x) post"
    by (simp add: dropWhile_append2)
  moreover have "meter_updates post = []"
    by (simp add: post_def meter_updates_append meter_updates_best_events)
  ultimately show ?thesis
    unfolding split by (simp add: meter_updates_dropWhile)
qed

lemma reset_block_events:
  assumes "registered s0 b"
  shows "reset_block (metrics s0) (b_iter b) (block_events la lg b)"
proof -
  from assms obtain ms where ms: "map_of (metrics s0) (b_phase b) = Some ms"
      "length ms = length (b_bests b)"
    by (auto simp add: registered_def)
  show ?thesis
    unfolding reset_block_def
    using ms meter_resets_block[of la lg b] meter_updates_after_reset[of la lg b]
    by (simp add: b_iter_def block_events_body phase_iterations_append phase_iterations_body)
qed

lemma list_all2_blocks_set:
  assumes "\<And>b. b \<in> set bs \<Longrightarrow> P (f b) (g b)"
  shows "list_all2 P (map f bs) (map g bs)"
  using assms by (induction bs) simp_all

section \<open>\<^verbatim>\<open>_predict\<close> and test-time augmentation\<close>

lemma predict_loop_frame:
  "predict_loop ops bs (pl, ll, s) = (pl', ll', s') \<Longrightarrow>
     cfg s' = cfg s \<and> metrics s' = metrics s \<and> dataloaders s' = dataloaders s"
  by (induction bs arbitrary: pl ll s)
     (auto simp add: record_call_def Let_def split: prod.splits)

lemma nn_predict_frame:
  assumes "nn_predict ops phase s = Inr (r, s')"
  shows "cfg s' = cfg s \<and> metrics s' = metrics s"
proof -
  from assms obtain dl where dl: "map_of (dataloaders s) phase = Some dl"
    by (auto simp add: nn_predict_def split: sum.splits option.splits)
  obtain pl ll s1 where pr: "predict_loop ops (batches dl) ([], [], s) = (pl, ll, s1)"
    by (metis surj_pair)
  from assms dl pr have "s' = s1"
    by (auto simp add: nn_predict_def split: sum.splits if_splits)
  with predict_loop_frame[OF pr] show ?thesis by simp
qed

lemma reshape_rows_ok:
  assumes "0 < k" and "k dvd length xs"
  shows "reshape_rows (int k) xs =
           Inr (map (\<lambda>j. take (length xs div k) (drop (j * (length xs div k)) xs)) [0..<k])"
  using assms by (simp add: reshape_rows_def dvd_eq_mod_eq_0)

lemma row_nth:
  assumes "0 < k" and "k dvd length xs" and "i < length xs div k" and "j < k"
  shows "take (length xs div k) (drop (j * (length xs div k)) xs) ! i = xs ! (i + j * (length xs div k))"
proof -
  define w where "w = length xs div k"
  have len: "length xs = k * w" using assms(2) by (simp add: w_def)
  have "Suc j \<le> k" using assms(4) by simp
  then have "Suc j * w \<le> k * w" by (rule mult_le_mono1)
  then have "j * w + w \<le> length xs" using len by simp
  then have "j * w \<le> length xs" by simp
  then show ?thesis using assms(3) by (simp add: w_def[symmetric] add.commute)
qed

lemma mean_axis0_nth:
  assumes "0 < k" and "k dvd length xs" and "i < length xs div k"
  shows "mean_axis0 ops
           (map (\<lambda>j. take (length xs div k) (drop (j * (length xs div k)) xs)) [0..<k])
           (length xs div k) ! i
         = np_mean ops (map (\<lambda>j. xs ! (i + j * (length xs div k))) [0..<k])"
proof -
  define rows where
    "rows = map (\<lambda>j. take (length xs div k) (drop (j * (length xs div k)) xs)) [0..<k]"
  have "map (\<lambda>row. row ! i) rows
        = map (\<lambda>j. take (length xs div k) (drop (j * (length xs div k)) xs) ! i) [0..<k]"
    by (simp add: rows_def comp_def)
  also have "\<dots> = map (\<lambda>j. xs ! (i + j * (length xs div k))) [0..<k]"
    by (rule map_cong[OF refl]) (simp only: row_nth[OF assms(1,2,3)] set_upt atLeastLessThan_iff)
  finally have cols: "map (\<lambda>row. row ! i) rows
        = map (\<lambda>j. xs ! (i + j * (length xs div k))) [0..<k]" .
  have "mean_axis0 ops rows (length xs div k) ! i = np_mean ops (map (\<lambda>row. row ! i) rows)"
    using assms(3) by (simp add: mean_axis0_def)
  then show ?thesis unfolding cols unfolding rows_def .
qed

section \<open>\<^verbatim>\<open>retrain\<close>\<close>

lemma retrain_epoch_raises: "\<exists>e. retrain_epoch ops b epoch s = Inl e"
  by (auto simp add: retrain_epoch_def call_update_by_epoch_def split: option.splits sum.splits)

lemma retrain_epoch_loop_Inr:
  "retrain_epoch_loop ops b es s = Inr s' \<Longrightarrow> es = [] \<and> s' = s"
proof (cases es)
  case Nil
  assume "retrain_epoch_loop ops b es s = Inr s'"
  with Nil show ?thesis by simp
next
  case (Cons e es')
  assume a: "retrain_epoch_loop ops b es s = Inr s'"
  obtain err where "retrain_epoch ops b e s = Inl err"
    using retrain_epoch_raises by blast
  with a Cons show ?thesis by simp
qed

lemma test_needs_test_metrics:
  assumes "metrics s = []"
  shows "\<exists>e. test ops rm False phase s = Inl e"
proof (cases "nn_predict ops phase s")
  case (Inl e)
  then show ?thesis by (simp add: test_def)
next
  case (Inr r)
  obtain pl ll s2 where r: "r = ((pl, ll), s2)" by (metis surj_pair)
  have "metrics s2 = []" using nn_predict_frame[OF Inr[unfolded r]] assms by simp
  then show ?thesis using Inr r by (simp add: test_def)
qed

lemma retrain_always_raises: "\<exists>e. retrain ops s = Inl e"
proof -
  define s1 where "s1 = record_call [LoadModel] (s\<lparr>model_manager := mm_load_model ops (model_manager s)\<rparr>)"
  have m1: "metrics s1 = metrics s" by (simp add: s1_def record_call_def)
  show ?thesis
  proof (cases "metrics s")
    case (Cons kv rest)
    obtain key v where "kv = (key, v)" by (cases kv)
    with Cons m1 show ?thesis by (simp add: retrain_def s1_def[symmetric])
  next
    case Nil
    show ?thesis
    proof (cases "retrain_epoch_loop ops False [0..<nat (retrain_epochs (cfg s1))] s1")
      case (Inl e)
      with Nil m1 show ?thesis by (simp add: retrain_def s1_def[symmetric])
    next
      case (Inr s2)
      from retrain_epoch_loop_Inr[OF Inr] have "s2 = s1" by simp
      with Nil m1 have "metrics s2 = []" by simp
      from test_needs_test_metrics[OF this, of ops True "''retrain_test''"]
      obtain e where "test ops True False ''retrain_test'' s2 = Inl e" by blast
      with Nil m1 Inr show ?thesis by (simp add: retrain_def s1_def[symmetric])
    qed
  qed
qed

section \<open>The log is a faithful record\<close>

lemma replay_append:
  "replay ops (xs @ ys) w =
     (case replay ops xs w of None \<Rightarrow> None | Some w' \<Rightarrow> replay ops ys w')"
  by (induction xs arbitrary: w) (simp_all split: option.splits)

lemma loggedI:
  "calls s' = calls s @ es \<Longrightarrow> replay ops es (world_of s) = Some (world_of s') \<Longrightarrow> logged ops s s'"
  by (simp add: logged_def)

lemma loggedE:
  assumes "logged ops s s'"
  obtains es where "calls s' = calls s @ es" "replay ops es (world_of s) = Some (world_of s')"
  using assms unfolding logged_def by (metis append_take_drop_id)

lemma logged_refl: "logged ops s s"
  by (simp add: logged_def)

lemma logged_trans:
  assumes "logged ops s s1" and "logged ops s1 s2"
  shows "logged ops s s2"
proof -
  from assms(1) obtain es1 where 1: "calls s1 = calls s @ es1"
      "replay ops es1 (world_of s) = Some (world_of s1)" by (rule loggedE)
  from assms(2) obtain es2 where 2: "calls s2 = calls s1 @ es2"
      "replay ops es2 (world_of s1) = Some (world_of s2)" by (rule loggedE)
  have "calls s2 = calls s @ (es1 @ es2)" using 1(1) 2(1) by simp
  moreover have "replay ops (es1 @ es2) (world_of s) = Some (world_of s2)"
    using 1(2) 2(2) by (simp add: replay_append)
  ultimately show ?thesis by (rule loggedI)
qed

lemma metric_at_nth:
  "map_of mets p = Some (v @ m # r) \<Longrightarrow> metric_at mets p (length v) = Some m"
  by (simp add: metric_at_def)

lemma on_metric_nth:
  "map_of mets p = Some (v @ m # r) \<Longrightarrow>
     on_metric p (length v) f mets = AList.update p (v @ f m # r) mets"
  by (simp add: on_metric_def)

lemma update_metrics_loop_replay:
  assumes "map_of mets p = Some (v @ ms)" and "length v = i"
  shows "replay ops (best_events p i (best_flags ops ms)) (model_manager s, mets)
         = Some (model_manager (snd (snd (update_metrics_loop ops p ms i (f, v, s)))),
                 AList.update p (v @ reset_all ops ms) mets)"
  using assms
proof (induction ms arbitrary: i f v s mets)
  case Nil
  then show ?case by (simp add: best_flags_def reset_all_def update_triv)
next
  case (Cons m r)
  define bf where "bf = fst (update_best ops (average_meter m))"
  define m1 where "m1 = m\<lparr>average_meter := snd (update_best ops (average_meter m))\<rparr>"
  define m2 where "m2 = m\<lparr>average_meter := reset ops (snd (update_best ops (average_meter m)))\<rparr>"
  define due where "due = (save_model m \<and> bf \<and> p = ''val'')"
  define mm1 where "mm1 = (if due then mm_save_model ops (model_manager s) else model_manager s)"
  define mets1 where "mets1 = AList.update p (v @ m1 # r) mets"
  define mets2 where "mets2 = AList.update p (v @ m2 # r) mets"
  have i: "i = length v" using Cons.prems(2) by simp
  have look1: "map_of mets1 p = Some (v @ m1 # r)" by (simp add: mets1_def update_conv')
  have look2: "map_of mets2 p = Some ((v @ [m2]) @ r)" by (simp add: mets2_def update_conv')
  have r1: "replay_event ops (UpdateBest p i (save_model m) bf) (model_manager s, mets)
              = Some (model_manager s, mets1)"
    using metric_at_nth[OF Cons.prems(1)] on_metric_nth[OF Cons.prems(1)]
    by (simp add: i bf_def mets1_def m1_def)
  have r2: "replay ops (if due then [SaveModel] else []) (model_manager s, mets1)
              = Some (mm1, mets1)"
    by (simp add: mm1_def)
  have r3: "replay_event ops (MeterReset p i) (mm1, mets1) = Some (mm1, mets2)"
    using metric_at_nth[OF look1] on_metric_nth[OF look1]
    by (simp add: i mets2_def mets1_def m1_def m2_def)
  define s1 where "s1 = record_call [UpdateBest p i (save_model m) bf] s"
  define fl where "fl = (if due then True else f)"
  define s3 where "s3 = record_call [MeterReset p i]
     (if due then record_call [SaveModel]
                    (s1\<lparr>model_manager := mm_save_model ops (model_manager s1)\<rparr>)
      else s1)"
  have step:
    "update_metrics_loop ops p (m # r) i (f, v, s)
       = update_metrics_loop ops p r (Suc i) (fl, v @ [m2], s3)"
    "model_manager s3 = mm1"
    by (simp_all add: bf_def m2_def mm1_def due_def s1_def s3_def fl_def record_call_def
          Let_def split_beta)
  have ih: "replay ops (best_events p (Suc i) (best_flags ops r)) (model_manager s3, mets2)
         = Some (model_manager (snd (snd (update_metrics_loop ops p r (Suc i) (fl, v @ [m2], s3)))),
                 AList.update p ((v @ [m2]) @ reset_all ops r) mets2)"
    by (rule Cons.IH[OF look2]) (simp add: i)
  have ev: "best_events p i (best_flags ops (m # r))
      = UpdateBest p i (save_model m) bf # (if due then [SaveModel] else [])
          @ MeterReset p i # best_events p (Suc i) (best_flags ops r)"
    by (simp add: best_flags_def bf_def due_def)
  have fin: "AList.update p ((v @ [m2]) @ reset_all ops r) mets2
      = AList.update p (v @ reset_all ops (m # r)) mets"
    by (simp add: mets2_def reset_all_def m2_def)
  show ?case
    unfolding ev step(1)
    using r1 r2 r3 ih fin step(2) by (simp add: replay_append)
qed

lemma update_by_epoch_logged:
  assumes "update_by_epoch ops p la s = Inr (flag, s')"
  shows "logged ops s s'"
proof -
  from assms obtain ms where ms: "map_of (metrics s) p = Some ms"
    by (auto simp add: update_by_epoch_def split: option.splits)
  obtain f v s1 where r: "update_metrics_loop ops p ms 0 (False, [], s) = (f, v, s1)"
    by (metis surj_pair)
  have v: "v = reset_all ops ms"
    using update_metrics_loop_visited[of ops p ms 0 False "[]" s] r by simp
  have c: "calls s1 = calls s @ best_events p 0 (best_flags ops ms)"
    using update_metrics_loop_calls[of ops p ms 0 False "[]" s] r by simp
  have m1: "metrics s1 = metrics s"
    using update_metrics_loop_frame[of ops p ms 0 False "[]" s] r by simp
  have rp: "replay ops (best_events p 0 (best_flags ops ms)) (model_manager s, metrics s)
      = Some (model_manager s1, AList.update p (reset_all ops ms) (metrics s))"
    using update_metrics_loop_replay[of "metrics s" p "[]" ms 0 ops s False] ms r by simp
  define es :: "'a event list" where
    "es = best_events p 0 (best_flags ops ms) @ (if p = ''train'' then [AnnealLr la] else [])"
  have s': "s' = (if p = ''train''
                  then record_call [AnnealLr la]
                         ((s1\<lparr>metrics := AList.update p v (metrics s1)\<rparr>)
                            \<lparr>model_manager := mm_anneal_lr ops la (model_manager s1)\<rparr>)
                  else s1\<lparr>metrics := AList.update p v (metrics s1)\<rparr>)"
    using assms ms r by (auto simp add: update_by_epoch_def)
  have "calls s' = calls s @ es"
    using c by (simp add: s' es_def record_call_def)
  moreover have "replay ops es (world_of s) = Some (world_of s')"
    using rp by (simp add: es_def replay_append world_of_def s' v m1 record_call_def)
  ultimately show ?thesis by (rule loggedI)
qed

lemma batch_loop_logged:
  "batch_loop ops p bs (pl, ll, s) = Inr (pl', ll', s') \<Longrightarrow> logged ops s s'"
proof (induction bs arbitrary: pl ll s)
  case Nil
  then show ?case by (simp add: logged_refl)
next
  case (Cons b bs)
  obtain inputs labels where b: "b = (inputs, labels)" by (cases b)
  obtain loss predicts mm' where f: "mm_fit ops (model_manager s) inputs labels p = ((loss, predicts), mm')"
    by (metis surj_pair)
  define s1 where "s1 = record_call [Fit p inputs labels loss predicts] (s\<lparr>model_manager := mm'\<rparr>)"
  from Cons.prems b f obtain m ms where
    look: "map_of (metrics s1) p = Some (m # ms)" and
    rest: "batch_loop ops p bs (pl @ predicts, ll @ labels,
             record_call [MetricUpdate p 0 loss predicts labels]
               (s1\<lparr>metrics := AList.update p (metric_update ops loss predicts labels m # ms) (metrics s1)\<rparr>))
           = Inr (pl', ll', s')"
    by (auto simp add: s1_def Let_def split: option.splits list.splits)
  define s2 where "s2 = record_call [MetricUpdate p 0 loss predicts labels]
               (s1\<lparr>metrics := AList.update p (metric_update ops loss predicts labels m # ms) (metrics s1)\<rparr>)"
  have look0: "map_of (metrics s) p = Some ([] @ m # ms)"
    using look by (simp add: s1_def record_call_def)
  have "calls s2 = calls s @ [Fit p inputs labels loss predicts,
                              MetricUpdate p 0 loss predicts labels]"
    by (simp add: s2_def s1_def record_call_def)
  moreover have "replay ops [Fit p inputs labels loss predicts,
                             MetricUpdate p 0 loss predicts labels] (world_of s)
                 = Some (world_of s2)"
    using f metric_at_nth[OF look0] on_metric_nth[OF look0]
    by (simp add: world_of_def s2_def s1_def record_call_def)
  ultimately have "logged ops s s2" by (rule loggedI)
  moreover have "logged ops s2 s'" using Cons.IH[OF rest[folded s2_def]] .
  ultimately show ?case by (rule logged_trans)
qed

lemma replay_metric_updates:
  assumes "map_of mets p = Some ms" and "a + k \<le> length ms"
  shows "replay ops (map (\<lambda>i. MetricUpdate p i l pr y) [a..<a + k]) (mm, mets)
         = Some (mm, AList.update p
                   (take a ms @ map (metric_update ops l pr y) (take k (drop a ms))
                      @ drop (a + k) ms) mets)"
  using assms(2)
proof (induction k)
  case 0
  then show ?case using assms(1) by (simp add: update_triv)
next
  case (Suc k)
  define v where "v = take a ms @ map (metric_update ops l pr y) (take k (drop a ms))"
  define r where "r = drop (Suc (a + k)) ms"
  define mets1 where "mets1 = AList.update p (v @ ms ! (a + k) # r) mets"
  have lt: "a + k < length ms" using Suc.prems by simp
  have lv: "length v = a + k" using lt by (simp add: v_def)
  have d: "drop (a + k) ms = ms ! (a + k) # r"
    using lt by (simp add: r_def Cons_nth_drop_Suc)
  have ih: "replay ops (map (\<lambda>i. MetricUpdate p i l pr y) [a..<a + k]) (mm, mets)
         = Some (mm, mets1)"
    using Suc.IH lt by (simp add: mets1_def v_def d)
  have look: "map_of mets1 p = Some (v @ ms ! (a + k) # r)"
    by (simp add: mets1_def update_conv')
  have t: "take (Suc k) (drop a ms) = take k (drop a ms) @ [ms ! (a + k)]"
    using lt by (simp add: take_Suc_conv_app_nth)
  have last: "replay_event ops (MetricUpdate p (a + k) l pr y) (mm, mets1)
      = Some (mm, AList.update p (v @ metric_update ops l pr y (ms ! (a + k)) # r) mets)"
    using metric_at_nth[OF look] on_metric_nth[OF look]
    by (simp add: lv mets1_def)
  have fin: "take a ms @ map (metric_update ops l pr y) (take (Suc k) (drop a ms))
                @ drop (Suc (a + k)) ms
             = v @ metric_update ops l pr y (ms ! (a + k)) # r"
    by (simp add: t v_def r_def)
  show ?case
    using ih last by (simp add: replay_append fin)
qed

lemma run_phase_logged:
  assumes "run_phase ops e p (bvp, s) = Inr (bvp', s')"
  shows "logged ops s s'"
proof -
  define s0 where "s0 = record_call [PhaseBegin e p] s"
  from assms obtain dl where dl: "map_of (dataloaders s) p = Some dl"
    by (auto simp add: run_phase_def split: option.splits)
  from assms dl obtain pl ll s1 where
    bl: "batch_loop ops p (batches dl) ([], [], s0) = Inr (pl, ll, s1)"
    by (auto simp add: run_phase_def s0_def split: sum.splits)
  from assms dl bl obtain ms where ms: "map_of (metrics s1) p = Some ms"
    by (auto simp add: run_phase_def s0_def split: option.splits)
  define ms' where "ms' = take 1 ms @ map (metric_update ops 0 pl ll) (drop 1 ms)"
  define s2 where "s2 = record_call (map (\<lambda>i. MetricUpdate p i 0 pl ll) [1..<length ms])
                      (s1\<lparr>metrics := AList.update p ms' (metrics s1)\<rparr>)"
  define s3 where "s3 = (if logger s2 then record_call [RecordLog p e] s2 else s2)"
  have "run_phase ops e p (bvp, s) =
      (case update_by_epoch ops p (learning_anneal (cfg s3)) s3 of
         Inl err \<Rightarrow> Inl err
       | Inr (flag, s4) \<Rightarrow> Inr (if flag then pl else bvp, s4))"
    using dl bl ms by (simp add: run_phase_def s3_def s2_def ms'_def s0_def Let_def)
  with assms obtain flag where
    ube: "update_by_epoch ops p (learning_anneal (cfg s3)) s3 = Inr (flag, s')"
    by (auto split: sum.splits)
  have l0: "logged ops s s0"
    by (rule loggedI[of _ _ "[PhaseBegin e p]"]) (simp_all add: s0_def record_call_def world_of_def)
  have l1: "logged ops s0 s1" using bl by (rule batch_loop_logged)
  have rp: "replay ops (map (\<lambda>i. MetricUpdate p i 0 pl ll) [1..<length ms]) (model_manager s1, metrics s1)
          = Some (model_manager s1, AList.update p ms' (metrics s1))"
  proof (cases ms)
    case Nil
    then show ?thesis using ms by (simp add: ms'_def update_triv)
  next
    case (Cons m r)
    then have le: "1 + (length ms - 1) \<le> length ms" and e: "1 + (length ms - 1) = length ms"
      by simp_all
    have x: "take 1 ms @ map (metric_update ops 0 pl ll) (take (length ms - 1) (drop 1 ms))
               @ drop (1 + (length ms - 1)) ms = ms'"
      by (simp add: ms'_def e)
    from replay_metric_updates[OF ms le, of ops 0 pl ll "model_manager s1"]
    show ?thesis unfolding x unfolding e .
  qed
  have l2: "logged ops s1 s2"
  proof (rule loggedI[of _ _ "map (\<lambda>i. MetricUpdate p i 0 pl ll) [1..<length ms]"])
    show "calls s2 = calls s1 @ map (\<lambda>i. MetricUpdate p i 0 pl ll) [1..<length ms]"
      by (simp add: s2_def record_call_def)
    show "replay ops (map (\<lambda>i. MetricUpdate p i 0 pl ll) [1..<length ms]) (world_of s1)
            = Some (world_of s2)"
      using rp by (simp add: s2_def record_call_def world_of_def)
  qed
  have l3: "logged ops s2 s3"
    by (rule loggedI[of _ _ "if logger s2 then [RecordLog p e] else []"])
       (simp_all add: s3_def record_call_def world_of_def)
  have l4: "logged ops s3 s'" using ube by (rule update_by_epoch_logged)
  from l0 l1 l2 l3 l4 show ?thesis by (blast intro: logged_trans)
qed

lemma phase_loop_logged:
  "phase_loop ops e ps st = Inr st' \<Longrightarrow> logged ops (snd st) (snd st')"
proof (induction ps arbitrary: st)
  case Nil
  then show ?case by (simp add: logged_refl)
next
  case (Cons p ps)
  from Cons.prems obtain st1 where
    1: "run_phase ops e p st = Inr st1" and 2: "phase_loop ops e ps st1 = Inr st'"
    by (auto split: sum.splits)
  have "logged ops (snd st) (snd st1)"
    using run_phase_logged[of ops e p "fst st" "snd st" "fst st1" "snd st1"] 1 by simp
  with Cons.IH[OF 2] show ?case by (blast intro: logged_trans)
qed

lemma epoch_loop_logged:
  "epoch_loop ops ps es st = Inr st' \<Longrightarrow> logged ops (snd st) (snd st')"
proof (induction es arbitrary: st)
  case Nil
  then show ?case by (simp add: logged_refl)
next
  case (Cons e es)
  from Cons.prems obtain st1 where
    1: "phase_loop ops e ps st = Inr st1" and 2: "epoch_loop ops ps es st1 = Inr st'"
    by (auto split: sum.splits)
  from phase_loop_logged[OF 1] Cons.IH[OF 2] show ?case by (blast intro: logged_trans)
qed

lemma train_logged:
  assumes "train ops mmo wv ov s0 = Inr (r, s')"
  shows "take (length (calls s0)) (calls s') = calls s0
     \<and> replay ops (drop (length (calls s0)) (calls s'))
         (model_manager (entered mmo s0), metrics s0) = Some (model_manager s', metrics s')"
proof -
  define s where "s = entered mmo s0"
  have s: "calls s = calls s0" "metrics s = metrics s0"
    by (simp_all add: s_def entered_def split: option.splits)
  from assms obtain bvp1 s1 where
    el: "epoch_loop ops (phases_of wv ov) [0..<nat (epochs (cfg s))] ([], s) = Inr (bvp1, s1)"
    by (auto simp add: train_def s_def entered_def Let_def split: sum.splits)
  define s2 where "s2 = (if logger s1 then record_call [LoggerClose] s1 else s1)"
  define s3 where "s3 = (if \<not> wv
                       then record_call [SaveModel]
                              (s2\<lparr>model_manager := mm_save_model ops (model_manager s2)\<rparr>)
                       else s2)"
  have s': "s' = s3"
    using assms el
    by (auto simp add: train_def s_def[symmetric] entered_def[symmetric] Let_def s2_def s3_def
          split: sum.splits)
  have l1: "logged ops s s1" using epoch_loop_logged[OF el] by simp
  have l2: "logged ops s1 s2"
    by (rule loggedI[of _ _ "if logger s1 then [LoggerClose] else []"])
       (simp_all add: s2_def record_call_def world_of_def)
  have l3: "logged ops s2 s3"
    by (rule loggedI[of _ _ "if \<not> wv then [SaveModel] else []"])
       (simp_all add: s3_def record_call_def world_of_def)
  from l1 l2 l3 have "logged ops s s'" unfolding s' by (blast intro: logged_trans)
  then show ?thesis by (simp add: logged_def s world_of_def s_def[symmetric])
qed

section \<open>The state after each iteration\<close>

lemma iter_loop_append:
  "iter_loop ops (xs @ ys) st =
     (case iter_loop ops xs st of Inl e \<Rightarrow> Inl e | Inr st1 \<Rightarrow> iter_loop ops ys st1)"
  by (induction xs arbitrary: st) (simp_all split: sum.splits)

lemma phase_loop_iter_loop: "phase_loop ops e ps st = iter_loop ops (map (Pair e) ps) st"
  by (induction ps arbitrary: st) (simp_all split: sum.splits)

lemma epoch_loop_iter_loop: "epoch_loop ops ps es st = iter_loop ops (List.product es ps) st"
  by (induction es arbitrary: st)
     (simp_all add: iter_loop_append phase_loop_iter_loop split: sum.splits)

lemma iter_loop_run_shape:
  "iter_loop ops its st = Inr st' \<Longrightarrow> \<exists>bs. map b_iter bs = its \<and> run_shape ops st st' bs"
proof (induction its arbitrary: st)
  case Nil
  then have "st' = st" by simp
  then have "map b_iter [] = [] \<and> run_shape ops st st' []"
    by (simp add: run_shape_Nil)
  then show ?case by blast
next
  case (Cons it its)
  from Cons.prems obtain st1 where
    1: "run_phase ops (fst it) (snd it) st = Inr st1" and 2: "iter_loop ops its st1 = Inr st'"
    by (auto split: sum.splits)
  from run_phase_run_shape[OF 1] obtain b where
    b: "b_iter b = it" "run_shape ops st st1 [b]" by auto
  from Cons.IH[OF 2] obtain bs where
    bs: "map b_iter bs = its" "run_shape ops st1 st' bs" by blast
  have "map b_iter (b # bs) = it # its" using b(1) bs(1) by simp
  moreover have "run_shape ops st st' (b # bs)"
    using run_shape_append[OF b(2) bs(2)] by simp
  ultimately have "map b_iter (b # bs) = it # its \<and> run_shape ops st st' (b # bs)" by simp
  then show ?case by (rule exI)
qed

lemma iter_loop_meters_reset:
  assumes "iter_loop ops its st = Inr st'" and "it \<in> set its"
  shows "\<exists>ms0. map_of (metrics (snd st')) (snd it) = Some (reset_all ops ms0)"
proof -
  from iter_loop_run_shape[OF assms(1)] obtain bs where
    bs: "map b_iter bs = its" "run_shape ops st st' bs" by blast
  from assms(2) bs(1) obtain b where "b \<in> set bs" "b_iter b = it"
    by (metis (no_types, lifting) imageE set_map)
  then have "meters_reset ops (snd st') (snd it)"
    using bs(2) by (auto simp add: run_shape_def b_iter_def)
  then show ?thesis by (simp add: meters_reset_def)
qed

lemma iter_loop_prefix:
  assumes "iter_loop ops its st = Inr st'"
  shows "\<exists>st1. iter_loop ops (take k its) st = Inr st1
           \<and> iter_loop ops (drop k its) st1 = Inr st'
           \<and> (\<forall>it \<in> set (take k its).
                 \<exists>ms0. map_of (metrics (snd st1)) (snd it) = Some (reset_all ops ms0))"
proof -
  have "iter_loop ops (take k its @ drop k its) st = Inr st'" using assms by simp
  then obtain st1 where
    1: "iter_loop ops (take k its) st = Inr st1" and 2: "iter_loop ops (drop k its) st1 = Inr st'"
    unfolding iter_loop_append by (auto split: sum.splits)
  from iter_loop_meters_reset[OF 1] 1 2 show ?thesis by blast
qed

lemma train_iter_loop:
  assumes "train ops mmo wv ov s0 = Inr ((ms, bvp), s')"
  shows "\<exists>s1. iter_loop ops (List.product [0..<nat (epochs (cfg s0))] (phases_of wv ov))
                 ([], entered mmo s0) = Inr (bvp, s1)
           \<and> metrics s1 = ms"
proof -
  define s where "s = entered mmo s0"
  have s: "cfg s = cfg s0" by (simp add: s_def entered_def split: option.splits)
  from assms obtain bvp1 s1 where
    el: "epoch_loop ops (phases_of wv ov) [0..<nat (epochs (cfg s))] ([], s) = Inr (bvp1, s1)"
    by (auto simp add: train_def s_def entered_def Let_def split: sum.splits)
  from assms el have "bvp = bvp1" "ms = metrics s1"
    by (auto simp add: train_def s_def[symmetric] entered_def[symmetric] Let_def record_call_def
          split: sum.splits if_splits)
  with el[unfolded s epoch_loop_iter_loop] show ?thesis unfolding s_def by simp
qed

section \<open>The fitted flag\<close>

lemma call_method_fitted:
  assumes "call_method est c (p, fs) = (out, (p', fs'))"
  shows "fitted p' = (fitted p \<or> sets_fitted (c, out))"
  using assms
  by (cases c)
     (auto simp add: predictor_save_model_def predictor_load_model_def predictor_fit_def
        Let_def split: option.splits sum.splits prod.splits if_splits)

lemma call_methods_fitted:
  "call_methods est cs (p, fs) = (outs, (p', fs')) \<Longrightarrow>
     length outs = length cs
     \<and> fitted p' = (fitted p \<or> (\<exists>co \<in> set (zip cs outs). sets_fitted co))"
proof (induction cs arbitrary: p fs outs p' fs')
  case Nil
  then show ?case by simp
next
  case (Cons c cs)
  obtain out p1 fs1 where 1: "call_method est c (p, fs) = (out, (p1, fs1))"
    by (metis surj_pair)
  obtain outs1 p2 fs2 where 2: "call_methods est cs (p1, fs1) = (outs1, (p2, fs2))"
    by (metis surj_pair)
  from Cons.prems 1 2 have e: "outs = out # outs1" "p' = p2" "fs' = fs2" by simp_all
  from call_method_fitted[OF 1] Cons.IH[OF 2] show ?case by (auto simp add: e)
qed

section \<open>JSON round trip\<close>

lemma plain_serializable: "plain v \<Longrightarrow> serializable v"
  by (induction v rule: serializable.induct) (auto simp add: list_all_iff)

lemma dict_set_fresh: "k \<notin> fst ` set d \<Longrightarrow> dict_set d k v = d @ [(k, v)]"
  by (induction d) (auto simp add: dict_set_def)

lemma rebuild_dict:
  assumes "distinct (map fst kvs)" and "fst ` set kvs \<inter> fst ` set acc = {}"
  shows "foldl (\<lambda>d kv. dict_set d (fst kv) (snd kv)) acc kvs = acc @ kvs"
  using assms
proof (induction kvs arbitrary: acc)
  case Nil
  show ?case by simp
next
  case (Cons kv kvs)
  have fresh: "fst kv \<notin> fst ` set acc" using Cons.prems(2) by auto
  have 1: "dict_set acc (fst kv) (snd kv) = acc @ [kv]"
    using dict_set_fresh[OF fresh] by simp
  have 2: "distinct (map fst kvs)" using Cons.prems(1) by simp
  have 3: "fst ` set kvs \<inter> fst ` set (acc @ [kv]) = {}"
    using Cons.prems by auto
  show ?case using Cons.IH[OF 2 3] by (simp add: 1)
qed

lemma str_key_roundtrip: "is_str_key k \<Longrightarrow> KStr (key_to_str k) = k"
  by (cases k) simp_all

lemma of_json_to_json: "plain v \<Longrightarrow> of_json (to_json v) = v"
proof (induction v rule: plain.induct)
  case (1 xs)
  then have "map (\<lambda>x. of_json (to_json x)) xs = xs"
    by (simp add: list_all_iff map_idI)
  then show ?case by (simp add: comp_def)
next
  case (3 kvs)
  have each: "\<And>kv. kv \<in> set kvs \<Longrightarrow>
      (KStr (key_to_str (fst kv)), of_json (to_json (snd kv))) = kv"
  proof -
    fix kv assume m: "kv \<in> set kvs"
    with "3.prems" have "is_str_key (fst kv)" "plain (snd kv)"
      by (simp_all add: list_all_iff)
    with "3.IH"[OF m] show "(KStr (key_to_str (fst kv)), of_json (to_json (snd kv))) = kv"
      by (simp add: str_key_roundtrip)
  qed
  have "foldl (\<lambda>d kv. dict_set d (KStr (fst kv)) (snd kv)) []
          (map (\<lambda>m. (fst m, of_json (snd m)))
             (map (\<lambda>kv. (key_to_str (fst kv), to_json (snd kv))) kvs))
        = foldl (\<lambda>d kv. dict_set d (fst kv) (snd kv)) []
            (map (\<lambda>kv. (KStr (key_to_str (fst kv)), of_json (to_json (snd kv)))) kvs)"
    by (simp add: foldl_map comp_def)
  also have "map (\<lambda>kv. (KStr (key_to_str (fst kv)), of_json (to_json (snd kv)))) kvs = kvs"
    using each by (simp add: map_idI)
  also have "foldl (\<lambda>d kv. dict_set d (fst kv) (snd kv)) [] kvs = [] @ kvs"
    using "3.prems" by (intro rebuild_dict) simp_all
  finally show ?case by simp
qed simp_all

section \<open>Properties\<close>



text \<open>
  C2 (amended). With \<^verbatim>\<open>tta = k\<close>, \<open>k \<ge> 1\<close>, and \<open>N\<close> stacked predictions where \<open>k\<close> divides
  \<open>N\<close>, \<^verbatim>\<open>_predict\<close> returns \<open>N / k\<close> predictions, the \<open>i\<close>-th being the mean, as NumPy
  computes it in float64, of the predictions at positions \<open>i\<close>, \<open>i + N/k\<close>, ...,
  \<open>i + (k-1) N/k\<close>, together with the label list cut to its own length divided by \<open>k\<close>
  (its first \<open>N / k\<close> entries when there are as many labels as predictions).
\<close>

theorem predict_tta_column_means:
  assumes "map_of (dataloaders s) phase = Some dl"
      and "predict_loop ops (batches dl) ([], [], s) = (pred_list, label_list, s1)"
      and "tta (cfg s) = int k" and "1 \<le> k" and "k dvd length pred_list"
  shows "\<exists>preds. nn_predict ops phase s
                 = Inr ((preds, take (length label_list div k) label_list), s1)
           \<and> length preds = length pred_list div k
           \<and> (\<forall>i < length pred_list div k.
                preds ! i = np_mean ops
                  (map (\<lambda>j. pred_list ! (i + j * (length pred_list div k))) [0..<k]))"
proof -
  have k: "0 < k" using assms(4) by simp
  have t: "tta (cfg s1) = int k"
    using predict_loop_frame[OF assms(2)] assms(3) by simp
  have key: "phase \<in> fst ` set (dataloaders s)"
    using assms(1) by (metis map_of_eq_None_iff option.distinct(1))
  define preds where
    "preds = mean_axis0 ops
               (map (\<lambda>j. take (length pred_list div k)
                            (drop (j * (length pred_list div k)) pred_list)) [0..<k])
               (length pred_list div k)"
  have "nn_predict ops phase s
          = Inr ((preds, take (length label_list div k) label_list), s1)"
    using assms(1,2) t k key reshape_rows_ok[OF k assms(5)]
    by (simp add: nn_predict_def preds_def)
  moreover have "length preds = length pred_list div k"
    by (simp add: preds_def mean_axis0_def)
  moreover have "\<forall>i < length pred_list div k.
      preds ! i = np_mean ops
        (map (\<lambda>j. pred_list ! (i + j * (length pred_list div k))) [0..<k])"
  proof (intro allI impI)
    fix i assume "i < length pred_list div k"
    from mean_axis0_nth[OF k assms(5) this, of ops]
    show "preds ! i = np_mean ops
        (map (\<lambda>j. pred_list ! (i + j * (length pred_list div k))) [0..<k])"
      unfolding preds_def .
  qed
  ultimately show ?thesis by blast
qed

theorem predict_tta_column_means_witness:
  "\<exists>preds s1. nn_predict demo_ops ''test'' demo_tta_manager = Inr ((preds, [1, 1]), s1)
     \<and> length preds = 2 \<and> preds ! 0 = 2 \<and> preds ! 1 = 3"
proof -
  define dl where "dl = demo_loader [1, 2, 3, 4]"
  define run where "run = predict_loop demo_ops (batches dl) ([], [], demo_tta_manager)"
  have 1: "map_of (dataloaders demo_tta_manager) ''test'' = Some dl"
    by (simp add: demo_tta_manager_def dl_def)
  have pl: "fst run = [1, 2, 3, 4]" and ll: "fst (snd run) = [1, 1, 1, 1]"
    by (simp_all add: run_def dl_def demo_loader_def demo_ops_def record_call_def)
  have 2: "predict_loop demo_ops (batches dl) ([], [], demo_tta_manager)
             = ([1, 2, 3, 4], [1, 1, 1, 1], snd (snd run))"
    using pl ll by (metis prod.collapse run_def)
  have 3: "tta (cfg demo_tta_manager) = int 2"
    by (simp add: demo_tta_manager_def)
  have 4: "(2::nat) dvd length [1, 2, 3, 4 :: real]" by simp
  from predict_tta_column_means[OF 1 2 3 _ 4] obtain preds where
    p: "nn_predict demo_ops ''test'' demo_tta_manager
          = Inr ((preds, take (length [1, 1, 1, 1 :: real] div 2) [1, 1, 1, 1]), snd (snd run))"
       "length preds = length [1, 2, 3, 4 :: real] div 2"
       "\<forall>i < length [1, 2, 3, 4 :: real] div 2.
           preds ! i = np_mean demo_ops
             (map (\<lambda>j. [1, 2, 3, 4] ! (i + j * (length [1, 2, 3, 4 :: real] div 2))) [0..<2])"
    by auto
  have u: "[0..<2] = [0, Suc 0]" by (simp add: upt_rec)
  from p(3)[rule_format, of 0] have a: "preds ! 0 = 2" by (simp add: u demo_ops_def)
  from p(3)[rule_format, of 1] have b: "preds ! 1 = 3" by (simp add: u demo_ops_def)
  from p(1,2) a b show ?thesis by simp
qed

text \<open>
  The property as first stated cuts the labels to the first \<open>N / k\<close>. With two values
  predicted for each of two samples and \<^verbatim>\<open>tta = 2\<close> there are \<open>N = 4\<close> predictions and two
  labels; \<^verbatim>\<open>_predict\<close> returns one label, not the first two.
\<close>

theorem predict_tta_labels_counterexample:
  "fst (predict_loop demo_proba_ops (batches (demo_loader [1, 3]))
          ([], [], demo_proba_manager)) = [1, 2, 3, 4]
   \<and> fst (snd (predict_loop demo_proba_ops (batches (demo_loader [1, 3]))
                  ([], [], demo_proba_manager))) = [1, 1]
   \<and> map_sum id fst (nn_predict demo_proba_ops ''test'' demo_proba_manager)
       = Inr ([2, 3], [1])
   \<and> [1] \<noteq> take (4 div 2) [1, 1 :: real]"
proof -
  have u: "[0..<2] = [0, Suc 0]" by (simp add: upt_rec)
  show ?thesis
    by (simp add: nn_predict_def demo_proba_manager_def demo_manager_def demo_cfg_def
          demo_loader_def demo_proba_ops_def demo_ops_def record_call_def reshape_rows_def
          mean_axis0_def u)
qed

text \<open>
  C3. A call of \<^verbatim>\<open>train\<close> that returns has run \<^verbatim>\<open>cfg['epochs']\<close> epochs (none when the number
  is negative) and in each of them the phases fixed by its flags, in this order:
  \<^verbatim>\<open>['val']\<close> when \<^verbatim>\<open>only_validate\<close> is set, else \<^verbatim>\<open>['train', 'val']\<close> when \<^verbatim>\<open>with_validate\<close> is
  set, else \<^verbatim>\<open>['train']\<close>.
\<close>

theorem train_iterates_epochs_and_phases:
  assumes "train ops mmo wv ov s0 = Inr (r, s')"
  shows "take (length (calls s0)) (calls s') = calls s0
     \<and> phase_iterations (drop (length (calls s0)) (calls s'))
         = List.product [0..<nat (epochs (cfg s0))]
             (if ov then [''val''] else if wv then [''train'', ''val''] else [''train''])"
proof -
  obtain ms bvp where r: "r = (ms, bvp)" by (cases r)
  from train_calls[OF assms[unfolded r]] obtain bs where
    bs: "map b_iter bs = List.product [0..<nat (epochs (cfg s0))] (phases_of wv ov)"
        "calls s' = calls s0
          @ concat (map (block_events (learning_anneal (cfg s0)) (logger s0)) bs)
          @ closing_events (logger s0) wv"
    by blast
  have "phase_iterations (drop (length (calls s0)) (calls s')) = map b_iter bs"
    using bs(2) by (simp add: phase_iterations_append phase_iterations_blocks phase_iterations_closing)
  moreover have "take (length (calls s0)) (calls s') = calls s0"
    using bs(2) by simp
  ultimately show ?thesis using bs(1) by (simp only: phases_of_cases)
qed

theorem train_iterates_epochs_and_phases_witness:
  "\<exists>r s'. train demo_ops None True False demo_manager = Inr (r, s')
     \<and> phase_iterations (drop (length (calls demo_manager)) (calls s'))
         = [(0, ''train''), (0, ''val''), (1, ''train''), (1, ''val'')]"
proof -
  have "case train demo_ops None True False demo_manager of
          Inl e \<Rightarrow> False | Inr r \<Rightarrow> True"
    by code_simp
  then obtain r s' where h: "train demo_ops None True False demo_manager = Inr (r, s')"
    by (cases "train demo_ops None True False demo_manager") auto
  have "List.product [0..<nat (epochs (cfg demo_manager))] [''train'', ''val'']
          = [(0, ''train''), (0, ''val''), (1, ''train''), (1, ''val'')]"
    by code_simp
  with train_iterates_epochs_and_phases[OF h] h show ?thesis by auto
qed

text \<open>
  C4. The calls that \<^verbatim>\<open>train\<close> adds to the log split into one block for each iteration
  \<open>(epoch, phase)\<close>, in order, and a tail. The block of a \<^verbatim>\<open>'train'\<close> phase ends with its only
  call of \<^verbatim>\<open>anneal_lr\<close>, made with \<^verbatim>\<open>cfg['learning_anneal']\<close>; the block of a \<^verbatim>\<open>'val'\<close> phase
  and the tail contain no call of \<^verbatim>\<open>anneal_lr\<close>. These calls are what \<^verbatim>\<open>train\<close> did to the
  model manager: replayed on the initial model manager and metrics, with \<^verbatim>\<open>anneal_lr\<close>
  applied at each of its entries, they give the final ones.
\<close>

theorem train_anneals_after_train_phase:
  fixes s0 :: "('x, 'mm, 'am) train_manager"
  assumes "train ops mmo wv ov s0 = Inr (r, s')"
  shows "\<exists>blocks tail.
       calls s' = calls s0 @ concat blocks @ tail
     \<and> list_all2 (anneal_block (learning_anneal (cfg s0)))
         (List.product [0..<nat (epochs (cfg s0))] (phases_of wv ov)) blocks
     \<and> phase_iterations tail = [] \<and> filter is_anneal tail = []
     \<and> replay ops (concat blocks @ tail) (model_manager (entered mmo s0), metrics s0)
         = Some (model_manager s', metrics s')"
proof -
  obtain ms bvp where r: "r = (ms, bvp)" by (cases r)
  define la where "la = learning_anneal (cfg s0)"
  from train_calls[OF assms[unfolded r]] obtain bs where
    bs: "map b_iter bs = List.product [0..<nat (epochs (cfg s0))] (phases_of wv ov)"
        "calls s' = calls s0 @ concat (map (block_events la (logger s0)) bs)
          @ closing_events (logger s0) wv"
    unfolding la_def by blast
  define blocks where "blocks = map (block_events la (logger s0)) bs"
  define tail :: "'x event list" where "tail = closing_events (logger s0) wv"
  have 0: "calls s' = calls s0 @ concat blocks @ tail"
    using bs(2) by (simp only: blocks_def tail_def)
  have "list_all2 (anneal_block la) (map b_iter bs) blocks"
    unfolding blocks_def by (rule list_all2_blocks) (rule anneal_block_events)
  then have 1: "list_all2 (anneal_block (learning_anneal (cfg s0)))
          (List.product [0..<nat (epochs (cfg s0))] (phases_of wv ov)) blocks"
    by (simp only: bs(1) la_def)
  have 2: "phase_iterations tail = []"
    unfolding tail_def by (rule phase_iterations_closing)
  have 3: "filter is_anneal tail = []"
    unfolding tail_def by (rule no_anneal_closing)
  have 4: "replay ops (concat blocks @ tail) (model_manager (entered mmo s0), metrics s0)
           = Some (model_manager s', metrics s')"
    using train_logged[OF assms] 0 by simp
  from 0 1 2 3 4 show ?thesis by blast
qed

theorem train_anneals_after_train_phase_witness:
  "\<exists>r s' blocks tail. train demo_ops None True False demo_manager = Inr (r, s')
     \<and> fst (model_manager demo_manager) = 1 \<and> fst (model_manager s') = 1 / 4
     \<and> calls s' = calls demo_manager @ concat blocks @ tail
     \<and> list_all2 (anneal_block 2)
          [(0, ''train''), (0, ''val''), (1, ''train''), (1, ''val'')] blocks
     \<and> filter is_anneal tail = []
     \<and> replay demo_ops (concat blocks @ tail)
          (model_manager (entered None demo_manager), metrics demo_manager)
         = Some (model_manager s', metrics s')"
proof -
  have "case train demo_ops None True False demo_manager of
          Inl e \<Rightarrow> False | Inr r \<Rightarrow> fst (model_manager (snd r)) = 1 / 4"
    by code_simp
  then obtain r s' where h: "train demo_ops None True False demo_manager = Inr (r, s')"
    and m: "fst (model_manager s') = 1 / 4"
    by (cases "train demo_ops None True False demo_manager") auto
  have m0: "fst (model_manager demo_manager) = 1" by (simp add: demo_manager_def)
  have p: "List.product [0..<nat (epochs (cfg demo_manager))] (phases_of True False)
          = [(0, ''train''), (0, ''val''), (1, ''train''), (1, ''val'')]"
    by code_simp
  have l: "learning_anneal (cfg demo_manager) = 2"
    by (simp add: demo_manager_def demo_cfg_def)
  from train_anneals_after_train_phase[OF h] h m m0 show ?thesis
    unfolding p l by blast
qed

text \<open>
  C5. \<^verbatim>\<open>retrain\<close> is meant to continue training from the checkpoint and to return the
  metrics. It never gets there. On a manager prepared for retraining, the loop at line 142
  iterates the keys of the metrics dictionary and raises \<^verbatim>\<open>AttributeError\<close> before any
  training step; on a manager with an empty metrics dictionary and an empty
  \<^verbatim>\<open>'retrain'\<close> loader, the first epoch ends in the \<^verbatim>\<open>TypeError\<close> of line 163, which passes
  three arguments to the two-parameter \<^verbatim>\<open>_update_by_epoch\<close>.
\<close>

theorem retrain_raises:
  "retrain demo_ops demo_retrain_manager = Inl AttributeError
   \<and> retrain demo_ops demo_bare_manager = Inl TypeError"
proof -
  have "case retrain demo_ops demo_retrain_manager of
          Inl e \<Rightarrow> e = AttributeError | Inr r \<Rightarrow> False"
    by code_simp
  moreover have "case retrain demo_ops demo_bare_manager of
          Inl e \<Rightarrow> e = TypeError | Inr r \<Rightarrow> False"
    by code_simp
  ultimately show ?thesis by (auto split: sum.splits)
qed

text \<open>
  C6. At the end of every phase of every epoch of \<^verbatim>\<open>train\<close> each metric's meter for that
  phase is reset, so no epoch starts from the values of the epoch before.
  The calls that \<^verbatim>\<open>train\<close> adds to the log split into one block for each iteration
  \<open>(epoch, phase)\<close>, in order, and a tail; in each block every metric registered for the
  phase has its meter reset exactly once, after the last metric update of the block, and
  the tail touches no meter. These calls are what \<^verbatim>\<open>train\<close> did to the metrics: replayed on
  the initial model manager and metrics, with \<^verbatim>\<open>reset\<close> applied at each of its entries, they
  give the final model manager and the returned metrics. And the state itself: the run is
  the loop over the iterations, and after any number \<open>k\<close> of them (which is where the next
  iteration starts) every meter of every phase processed so far is a value that \<^verbatim>\<open>reset\<close>
  produced; so are the meters of the returned metrics when an epoch has run.
\<close>

theorem train_resets_epoch_meters:
  fixes s0 :: "('x, 'mm, 'am) train_manager"
  assumes "train ops mmo wv ov s0 = Inr ((ms, bvp), s')"
  shows "\<exists>blocks tail s1.
       calls s' = calls s0 @ concat blocks @ tail
     \<and> list_all2 (reset_block (metrics s0))
         (List.product [0..<nat (epochs (cfg s0))] (phases_of wv ov)) blocks
     \<and> phase_iterations tail = [] \<and> meter_resets tail = [] \<and> meter_updates tail = []
     \<and> replay ops (concat blocks @ tail) (model_manager (entered mmo s0), metrics s0)
         = Some (model_manager s', ms)
     \<and> iter_loop ops (List.product [0..<nat (epochs (cfg s0))] (phases_of wv ov))
         ([], entered mmo s0) = Inr (bvp, s1)
     \<and> metrics s1 = ms
     \<and> (\<forall>k. \<exists>st.
           iter_loop ops (take k (List.product [0..<nat (epochs (cfg s0))] (phases_of wv ov)))
             ([], entered mmo s0) = Inr st
         \<and> iter_loop ops (drop k (List.product [0..<nat (epochs (cfg s0))] (phases_of wv ov)))
             st = Inr (bvp, s1)
         \<and> (\<forall>it \<in> set (take k (List.product [0..<nat (epochs (cfg s0))] (phases_of wv ov))).
               \<exists>ms0. map_of (metrics (snd st)) (snd it) = Some (reset_all ops ms0)))
     \<and> (\<forall>p \<in> set (phases_of wv ov). 0 < epochs (cfg s0) \<longrightarrow>
           (\<exists>ms0. map_of ms p = Some (reset_all ops ms0)))"
proof -
  define la where "la = learning_anneal (cfg s0)"
  define iters where "iters = List.product [0..<nat (epochs (cfg s0))] (phases_of wv ov)"
  from train_calls[OF assms] obtain bs where
    bs: "map b_iter bs = iters"
        "calls s' = calls s0 @ concat (map (block_events la (logger s0)) bs)
          @ closing_events (logger s0) wv"
        "\<forall>b \<in> set bs. registered s0 b" "ms = metrics s'"
        "\<forall>b \<in> set bs. meters_reset ops s' (b_phase b)"
    unfolding la_def iters_def by blast
  define blocks where "blocks = map (block_events la (logger s0)) bs"
  define tail :: "'x event list" where "tail = closing_events (logger s0) wv"
  have 0: "calls s' = calls s0 @ concat blocks @ tail"
    using bs(2) by (simp only: blocks_def tail_def)
  have "list_all2 (reset_block (metrics s0)) (map b_iter bs) blocks"
    unfolding blocks_def using bs(3) by (intro list_all2_blocks_set reset_block_events) simp
  then have 1: "list_all2 (reset_block (metrics s0)) iters blocks"
    by (simp only: bs(1))
  have 2: "phase_iterations tail = []" "meter_resets tail = []" "meter_updates tail = []"
    by (simp_all add: tail_def closing_events_def)
  have 3: "\<forall>p \<in> set (phases_of wv ov). 0 < epochs (cfg s0) \<longrightarrow>
           (\<exists>ms0. map_of ms p = Some (reset_all ops ms0))"
  proof (intro ballI impI)
    fix p assume p: "p \<in> set (phases_of wv ov)" and e: "0 < epochs (cfg s0)"
    have "(0, p) \<in> set iters" using p e by (simp add: iters_def)
    then obtain b where "b \<in> set bs" "b_iter b = (0, p)"
      using bs(1) by (metis (no_types, lifting) imageE set_map)
    then have "meters_reset ops s' p" using bs(5) by (auto simp add: b_iter_def)
    then show "\<exists>ms0. map_of ms p = Some (reset_all ops ms0)"
      by (simp add: meters_reset_def bs(4))
  qed
  have 4: "replay ops (concat blocks @ tail) (model_manager (entered mmo s0), metrics s0)
           = Some (model_manager s', ms)"
    using train_logged[OF assms] 0 bs(4) by simp
  from train_iter_loop[OF assms] obtain s1 where
    5: "iter_loop ops iters ([], entered mmo s0) = Inr (bvp, s1)" "metrics s1 = ms"
    unfolding iters_def by blast
  have 6: "\<forall>k. \<exists>st. iter_loop ops (take k iters) ([], entered mmo s0) = Inr st
         \<and> iter_loop ops (drop k iters) st = Inr (bvp, s1)
         \<and> (\<forall>it \<in> set (take k iters).
               \<exists>ms0. map_of (metrics (snd st)) (snd it) = Some (reset_all ops ms0))"
    using iter_loop_prefix[OF 5(1)] by blast
  have "calls s' = calls s0 @ concat blocks @ tail
     \<and> list_all2 (reset_block (metrics s0)) iters blocks
     \<and> phase_iterations tail = [] \<and> meter_resets tail = [] \<and> meter_updates tail = []
     \<and> replay ops (concat blocks @ tail) (model_manager (entered mmo s0), metrics s0)
         = Some (model_manager s', ms)
     \<and> iter_loop ops iters ([], entered mmo s0) = Inr (bvp, s1)
     \<and> metrics s1 = ms
     \<and> (\<forall>k. \<exists>st. iter_loop ops (take k iters) ([], entered mmo s0) = Inr st
         \<and> iter_loop ops (drop k iters) st = Inr (bvp, s1)
         \<and> (\<forall>it \<in> set (take k iters).
               \<exists>ms0. map_of (metrics (snd st)) (snd it) = Some (reset_all ops ms0)))
     \<and> (\<forall>p \<in> set (phases_of wv ov). 0 < epochs (cfg s0) \<longrightarrow>
           (\<exists>ms0. map_of ms p = Some (reset_all ops ms0)))"
    using 0 1 2 4 5 6 3 by (intro conjI)
  then show ?thesis unfolding iters_def by (intro exI)
qed

theorem train_resets_epoch_meters_witness:
  "\<exists>ms bvp s' st. train demo_ops None True False demo_manager = Inr ((ms, bvp), s')
     \<and> iter_loop demo_ops [(0, ''train''), (0, ''val'')] ([], entered None demo_manager)
         = Inr st
     \<and> map_of (metrics (snd st)) ''train''
         = Some [\<lparr>name = ''loss'', save_model = False, average_meter = (0, 2)\<rparr>]
     \<and> map_of (metrics (snd st)) ''val''
         = Some [\<lparr>name = ''loss'', save_model = True, average_meter = (0, 1)\<rparr>]
     \<and> (\<exists>ms0. map_of (metrics (snd st)) ''train'' = Some (reset_all demo_ops ms0))
     \<and> (\<exists>ms0. map_of (metrics (snd st)) ''val'' = Some (reset_all demo_ops ms0))
     \<and> (\<exists>ms0. map_of ms ''val'' = Some (reset_all demo_ops ms0))"
proof -
  have "case train demo_ops None True False demo_manager of
          Inl e \<Rightarrow> False | Inr r \<Rightarrow> True"
    by code_simp
  then obtain ms bvp s' where
    h: "train demo_ops None True False demo_manager = Inr ((ms, bvp), s')"
    by (cases "train demo_ops None True False demo_manager") auto
  have p: "List.product [0..<nat (epochs (cfg demo_manager))] (phases_of True False)
          = [(0, ''train''), (0, ''val''), (1, ''train''), (1, ''val'')]"
    by code_simp
  have e: "0 < epochs (cfg demo_manager)" "''val'' \<in> set (phases_of True False)"
    by (simp_all add: demo_manager_def demo_cfg_def phases_of_def)
  from train_resets_epoch_meters[OF h] obtain s1 where
    b: "\<forall>k. \<exists>st.
           iter_loop demo_ops (take k [(0, ''train''), (0, ''val''), (1, ''train''), (1, ''val'')])
             ([], entered None demo_manager) = Inr st
         \<and> iter_loop demo_ops (drop k [(0, ''train''), (0, ''val''), (1, ''train''), (1, ''val'')])
             st = Inr (bvp, s1)
         \<and> (\<forall>it \<in> set (take k [(0::nat, ''train''), (0, ''val''), (1, ''train''), (1, ''val'')]).
               \<exists>ms0. map_of (metrics (snd st)) (snd it) = Some (reset_all demo_ops ms0))"
       "\<forall>p \<in> set (phases_of True False). 0 < epochs (cfg demo_manager) \<longrightarrow>
           (\<exists>ms0. map_of ms p = Some (reset_all demo_ops ms0))"
    unfolding p by (elim exE conjE) (rule that, assumption+)
  have t2: "take 2 [(0::nat, ''train''), (0, ''val''), (1, ''train''), (1, ''val'')]
              = [(0, ''train''), (0, ''val'')]"
    by simp
  from b(1)[rule_format, of 2] obtain st where
    st: "iter_loop demo_ops [(0, ''train''), (0, ''val'')] ([], entered None demo_manager)
           = Inr st"
        "\<forall>it \<in> set [(0::nat, ''train''), (0, ''val'')].
               \<exists>ms0. map_of (metrics (snd st)) (snd it) = Some (reset_all demo_ops ms0)"
    unfolding t2 by blast
  from st(2) have
    "\<exists>ms0. map_of (metrics (snd st)) ''train'' = Some (reset_all demo_ops ms0)"
    "\<exists>ms0. map_of (metrics (snd st)) ''val'' = Some (reset_all demo_ops ms0)"
    by simp_all
  moreover from b(2) e have "\<exists>ms0. map_of ms ''val'' = Some (reset_all demo_ops ms0)" by blast
  moreover have "case iter_loop demo_ops [(0, ''train''), (0, ''val'')]
                        ([], entered None demo_manager) of
                   Inl e \<Rightarrow> False
                 | Inr st \<Rightarrow>
                     map_of (metrics (snd st)) ''train''
                       = Some [\<lparr>name = ''loss'', save_model = False, average_meter = (0, 2)\<rparr>]
                   \<and> map_of (metrics (snd st)) ''val''
                       = Some [\<lparr>name = ''loss'', save_model = True, average_meter = (0, 1)\<rparr>]"
    by code_simp
  then have "map_of (metrics (snd st)) ''train''
                = Some [\<lparr>name = ''loss'', save_model = False, average_meter = (0, 2)\<rparr>]
           \<and> map_of (metrics (snd st)) ''val''
                = Some [\<lparr>name = ''loss'', save_model = True, average_meter = (0, 1)\<rparr>]"
    unfolding st(1) by simp
  ultimately show ?thesis using h st(1) by blast
qed

text \<open>
  C7. \<^verbatim>\<open>_init_model_manager\<close> selects the manager by \<^verbatim>\<open>cfg['model_type']\<close>: a name in the
  table of neural-network models or of pretrained models gives an \<^verbatim>\<open>NNModelManager\<close>, a
  name in the table of classical models gives an \<^verbatim>\<open>MLModelManager\<close>. The manager has at
  least one data loader, and no name is in both the classical table and a neural one.
\<close>

theorem init_model_manager_selects:
  assumes "dls \<noteq> []" and "set ml \<inter> set (nn @ pre) = {}"
  shows "(model_type c \<in> set (nn @ pre) \<longrightarrow>
            (\<exists>c'. init_model_manager nn pre ml labels c dls = Inr (Some (NNModelManager labels c'), c')))
       \<and> (model_type c \<in> set ml \<longrightarrow>
            (\<exists>c'. init_model_manager nn pre ml labels c dls = Inr (Some (MLModelManager labels c'), c')))"
proof -
  obtain k dl rest where dls: "dls = (k, dl) # rest"
    using assms(1) by (cases dls) auto
  have ml: "model_type c \<in> set ml \<Longrightarrow> model_type c \<notin> set (nn @ pre)"
    using assms(2) by blast
  show ?thesis
  proof (intro conjI impI)
    assume "model_type c \<in> set (nn @ pre)"
    then show "\<exists>c'. init_model_manager nn pre ml labels c dls = Inr (Some (NNModelManager labels c'), c')"
      by (simp add: init_model_manager_def dls Let_def)
  next
    assume a: "model_type c \<in> set ml"
    with ml have "model_type c \<notin> set (nn @ pre)" by simp
    with a show "\<exists>c'. init_model_manager nn pre ml labels c dls = Inr (Some (MLModelManager labels c'), c')"
      by (simp add: init_model_manager_def dls Let_def)
  qed
qed

theorem init_model_manager_selects_witness:
  "(\<exists>c'. init_model_manager [''cnn'', ''rnn''] [''resnet''] [''svm'', ''knn''] [''0'', ''1'']
            demo_cfg [(''train'', demo_loader [1])]
          = Inr (Some (NNModelManager [''0'', ''1''] c'), c'))
 \<and> (\<exists>c'. init_model_manager [''cnn'', ''rnn''] [''resnet''] [''svm'', ''knn''] [''0'', ''1'']
            (demo_cfg\<lparr>model_type := ''svm''\<rparr>) [(''train'', demo_loader [1])]
          = Inr (Some (MLModelManager [''0'', ''1''] c'), c'))"
proof -
  have d: "[(''train'', demo_loader [1])] \<noteq> []" by simp
  have j: "set [''svm'', ''knn''] \<inter> set ([''cnn'', ''rnn''] @ [''resnet'']) = {}" by simp
  have n: "model_type demo_cfg \<in> set ([''cnn'', ''rnn''] @ [''resnet''])"
    by (simp add: demo_cfg_def)
  have m: "model_type (demo_cfg\<lparr>model_type := ''svm''\<rparr>) \<in> set [''svm'', ''knn'']"
    by simp
  from init_model_manager_selects[OF d j, of demo_cfg "[''0'', ''1'']"] n
       init_model_manager_selects[OF d j, of "demo_cfg\<lparr>model_type := ''svm''\<rparr>" "[''0'', ''1'']"] m
  show ?thesis by blast
qed

text \<open>
  C8 (amended). For every path that can be opened for writing and every dictionary built
  from \<^verbatim>\<open>None\<close>, booleans, integers, finite floats, strings, lists and dictionaries whose
  keys are strings, \<^verbatim>\<open>dump_dict\<close> writes a file whose JSON parse equals the dictionary.
\<close>

theorem dump_then_load_plain:
  assumes "may_open fs path" and "plain d"
  shows "dump_then_load path d fs = Inr d"
  using assms
  by (simp add: dump_then_load_def dump_dict_def json_load_def plain_serializable of_json_to_json)

theorem dump_then_load_plain_witness:
  "dump_then_load ''out.json''
     (PDict [(KStr ''lr'', PFloat 0.5), (KStr ''epochs'', PInt 20),
             (KStr ''loss_weight'', PList [PInt 1, PInt 2]), (KStr ''cuda'', PBool False),
             (KStr ''checkpoint'', PNone)]) demo_disk
   = Inr (PDict [(KStr ''lr'', PFloat 0.5), (KStr ''epochs'', PInt 20),
             (KStr ''loss_weight'', PList [PInt 1, PInt 2]), (KStr ''cuda'', PBool False),
             (KStr ''checkpoint'', PNone)])"
  by (rule dump_then_load_plain) (simp_all add: demo_disk_def)

text \<open>
  The property as first stated covers every path and every dictionary that \<^verbatim>\<open>json.dump\<close>
  accepts. The dictionary \<^verbatim>\<open>{1: 'a'}\<close> is accepted and comes back as \<^verbatim>\<open>{'1': 'a'}\<close>; a tuple
  comes back as a list; and on a path into a directory that does not exist \<^verbatim>\<open>dump_dict\<close>
  raises and writes no file.
\<close>

theorem dump_then_load_counterexample:
  "serializable (PDict [(KInt 1, PStr ''a'')])
   \<and> dump_then_load ''out.json'' (PDict [(KInt 1, PStr ''a'')]) demo_disk
       = Inr (PDict [(KStr ''1'', PStr ''a'')])
   \<and> PDict [(KStr ''1'', PStr ''a'')] \<noteq> PDict [(KInt 1, PStr ''a'')]
   \<and> dump_then_load ''out.json'' (PDict [(KStr ''t'', PTuple [PInt 1, PInt 2])]) demo_disk
       = Inr (PDict [(KStr ''t'', PList [PInt 1, PInt 2])])
   \<and> dump_dict ''missing/out.json'' (PDict [(KStr ''a'', PInt 1)]) demo_disk
       = (Some OSError, demo_disk)"
proof -
  have "show_int 1 = ''1''" by code_simp
  then show ?thesis
    by (simp add: dump_then_load_def dump_dict_def json_load_def dict_set_def demo_disk_def)
qed

text \<open>
  C9 (amended). After any sequence of method calls on a freshly constructed predictor,
  each exception caught, the flag \<^verbatim>\<open>fitted\<close> is set exactly when the sequence has a call of
  \<^verbatim>\<open>fit\<close> or a call of \<^verbatim>\<open>load_model\<close> that returned, and no further call clears it.
  \<^verbatim>\<open>predict\<close> then raises \<^verbatim>\<open>NotFittedError\<close> exactly when the sequence has no such call
  (the guard of line 82) or the estimator it delegates to raises that exception.
\<close>

theorem predict_guard_iff_flag:
  assumes "call_methods est cs (init_predictor labels m0, fs) = (outs, (p, fs'))"
  shows "fitted p = (\<exists>co \<in> set (zip cs outs). sets_fitted co)
     \<and> (\<forall>c. fitted p \<longrightarrow> fitted (fst (snd (call_method est c (p, fs')))))
     \<and> (predictor_predict est x p = Inl NotFittedError)
         = ((\<forall>co \<in> set (zip cs outs). \<not> sets_fitted co)
            \<or> (\<exists>m. model p = Some m \<and> est_predict est m x = Inl NotFittedError))"
proof -
  have 1: "fitted p = (\<exists>co \<in> set (zip cs outs). sets_fitted co)"
    using call_methods_fitted[OF assms] by (simp add: init_predictor_def)
  have 2: "\<forall>c. fitted p \<longrightarrow> fitted (fst (snd (call_method est c (p, fs'))))"
  proof (intro allI impI)
    fix c assume f: "fitted p"
    obtain out p1 fs1 where r: "call_method est c (p, fs') = (out, (p1, fs1))"
      by (metis surj_pair)
    from call_method_fitted[OF r] f show "fitted (fst (snd (call_method est c (p, fs'))))"
      by (simp add: r)
  qed
  have 3: "(predictor_predict est x p = Inl NotFittedError)
         = (\<not> fitted p \<or> (\<exists>m. model p = Some m \<and> est_predict est m x = Inl NotFittedError))"
    by (auto simp add: predictor_predict_def split: option.splits)
  from 1 2 3 show ?thesis by blast
qed

theorem predict_guard_iff_flag_witness:
  "fitted (fst (snd (call_methods demo_estimator [CallFit 1 2, CallPredict 3]
                        (init_predictor [''0'', ''1''] (Some 0), demo_files))))
   \<and> predictor_predict demo_estimator 5
        (fst (snd (call_methods demo_estimator [CallFit 1 2, CallPredict 3]
                     (init_predictor [''0'', ''1''] (Some 0), demo_files))))
       \<noteq> Inl NotFittedError"
proof -
  define r where "r = call_methods demo_estimator [CallFit 1 2, CallPredict (3::nat)]
                        (init_predictor [''0'', ''1''] (Some 0), demo_files)"
  have h: "call_methods demo_estimator [CallFit 1 2, CallPredict 3]
             (init_predictor [''0'', ''1''] (Some 0), demo_files)
           = (fst r, (fst (snd r), snd (snd r)))"
    by (simp add: r_def)
  have o: "fst r = [None, None]" and m: "model (fst (snd r)) = Some 4"
    by (simp_all add: r_def predictor_fit_def predictor_predict_def init_predictor_def
          demo_estimator_def raised_def Let_def)
  from predict_guard_iff_flag[OF h, of 5] o m show ?thesis
    unfolding r_def[symmetric] by (auto simp add: demo_estimator_def)
qed

text \<open>
  The property as first stated has \<^verbatim>\<open>predict\<close> raise \<^verbatim>\<open>NotFittedError\<close> only when neither
  \<^verbatim>\<open>fit\<close> nor \<^verbatim>\<open>load_model\<close> has been called. A \<^verbatim>\<open>load_model\<close> of a missing file raises and
  leaves the flag unset; a \<^verbatim>\<open>load_model\<close> of a pickled estimator that was never fitted sets
  the flag, and the estimator raises. In both runs \<^verbatim>\<open>load_model\<close> has been called and
  \<^verbatim>\<open>predict\<close> raises \<^verbatim>\<open>NotFittedError\<close>.
\<close>

theorem predict_not_fitted_counterexample:
  "fst (call_methods demo_estimator [CallLoadModel ''none.pkl'']
          (init_predictor [''0'', ''1''] (Some 0), demo_files)) = [Some FileNotFoundError]
   \<and> predictor_predict demo_estimator 5
        (fst (snd (call_methods demo_estimator [CallLoadModel ''none.pkl'']
                     (init_predictor [''0'', ''1''] (Some 0), demo_files))))
       = Inl NotFittedError
   \<and> fst (call_methods demo_estimator [CallSaveModel ''m.pkl'', CallLoadModel ''m.pkl'']
          (init_predictor [''0'', ''1''] (Some 0), demo_files)) = [None, None]
   \<and> predictor_predict demo_estimator 5
        (fst (snd (call_methods demo_estimator [CallSaveModel ''m.pkl'', CallLoadModel ''m.pkl'']
                     (init_predictor [''0'', ''1''] (Some 0), demo_files))))
       = Inl NotFittedError"
  by (simp add: predictor_load_model_def predictor_save_model_def predictor_predict_def
        init_predictor_def demo_estimator_def demo_files_def)

text \<open>
  C10. With \<^verbatim>\<open>with_validate=False\<close> and \<^verbatim>\<open>only_validate=False\<close>, a call of \<^verbatim>\<open>train\<close> that
  returns has called \<^verbatim>\<open>save_model\<close> exactly once, as its last call, after all
  \<^verbatim>\<open>cfg['epochs']\<close> epochs of the \<^verbatim>\<open>'train'\<close> phase, whatever the metrics did: the calls
  before it, replayed on the initial model manager and metrics, give a model manager
  \<open>mm1\<close> and the final metrics, and the final model manager is \<^verbatim>\<open>save_model\<close> applied to
  \<open>mm1\<close>.
\<close>

theorem train_without_validation_saves_once:
  assumes "train ops mmo False False s0 = Inr (r, s')"
  shows "\<exists>body mm1. calls s' = calls s0 @ body @ [SaveModel]
     \<and> SaveModel \<notin> set body
     \<and> phase_iterations body = List.product [0..<nat (epochs (cfg s0))] [''train'']
     \<and> replay ops body (model_manager (entered mmo s0), metrics s0) = Some (mm1, metrics s')
     \<and> model_manager s' = mm_save_model ops mm1"
proof -
  obtain ms bvp where r: "r = (ms, bvp)" by (cases r)
  from train_calls[OF assms[unfolded r]] obtain bs where
    bs: "map b_iter bs = List.product [0..<nat (epochs (cfg s0))] [''train'']"
        "calls s' = calls s0
          @ concat (map (block_events (learning_anneal (cfg s0)) (logger s0)) bs)
          @ closing_events (logger s0) False"
    by (auto simp add: phases_of_def)
  define body where
    "body = concat (map (block_events (learning_anneal (cfg s0)) (logger s0)) bs)
              @ (if logger s0 then [LoggerClose] else [])"
  have "\<forall>b \<in> set bs. SaveModel \<notin> set (block_events (learning_anneal (cfg s0)) (logger s0) b)"
    using train_blocks_phase[OF bs(1)] no_save_train_block by blast
  then have 1: "SaveModel \<notin> set body" by (auto simp add: body_def)
  have 2: "calls s' = calls s0 @ body @ [SaveModel]"
    using bs(2) by (simp add: body_def closing_events_def)
  have 3: "phase_iterations body = List.product [0..<nat (epochs (cfg s0))] [''train'']"
    using bs(1) by (simp add: body_def phase_iterations_append phase_iterations_blocks)
  have "replay ops (body @ [SaveModel]) (model_manager (entered mmo s0), metrics s0)
          = Some (model_manager s', metrics s')"
    using train_logged[OF assms] 2 by simp
  then obtain mm1 where
    4: "replay ops body (model_manager (entered mmo s0), metrics s0) = Some (mm1, metrics s')"
       "model_manager s' = mm_save_model ops mm1"
    unfolding replay_append by (auto split: option.splits)
  from 1 2 3 4 show ?thesis by blast
qed

theorem train_without_validation_saves_once_witness:
  "\<exists>r s' body mm1. train demo_ops None False False demo_manager = Inr (r, s')
     \<and> calls s' = calls demo_manager @ body @ [SaveModel]
     \<and> SaveModel \<notin> set body
     \<and> phase_iterations body = [(0, ''train''), (1, ''train'')]
     \<and> replay demo_ops body (model_manager (entered None demo_manager), metrics demo_manager)
         = Some (mm1, metrics s')
     \<and> model_manager s' = mm_save_model demo_ops mm1
     \<and> snd (model_manager demo_manager) = 0 \<and> snd (model_manager s') = 1"
proof -
  have "case train demo_ops None False False demo_manager of
          Inl e \<Rightarrow> False | Inr r \<Rightarrow> snd (model_manager (snd r)) = 1"
    by code_simp
  then obtain r s' where h: "train demo_ops None False False demo_manager = Inr (r, s')"
    and m: "snd (model_manager s') = 1"
    by (cases "train demo_ops None False False demo_manager") auto
  have m0: "snd (model_manager demo_manager) = 0" by (simp add: demo_manager_def)
  have p: "List.product [0..<nat (epochs (cfg demo_manager))] [''train'']
          = [(0, ''train''), (1, ''train'')]"
    by code_simp
  from train_without_validation_saves_once[OF h] h m m0 show ?thesis
    unfolding p by blast
qed

end
